theory Spec2Isabelle
  imports Main
begin

section \<open>JavaScript numbers and strings\<close>

text \<open>
  The program is JavaScript. Its numbers are IEEE doubles, which are exact on the
  integers of magnitude below \<open>2^53\<close>; every number the parser and the layout resolver
  handle is an integer (digit captures, file sizes, products and differences of them),
  so numbers are modelled as \<^typ>\<open>int\<close> (and \<^typ>\<open>nat\<close> where the code can only
  produce a digit string's value).

  \<^verbatim>\<open>a % b\<close> is the truncating remainder: it has the sign of the dividend.
  \<^verbatim>\<open>Math.floor(a / b)\<close> on integers is the floor division, \<open>div\<close> on \<^typ>\<open>int\<close>.
\<close>

definition js_rem :: "int \<Rightarrow> int \<Rightarrow> int" where
  "js_rem a b = sgn a * (\<bar>a\<bar> mod \<bar>b\<bar>)"

text \<open>
  Strings are modelled as \<^typ>\<open>string\<close>, one \<^typ>\<open>char\<close> per character of the sheet:
  the model covers sheets written in ASCII, where a JavaScript code unit is one
  character, \<^verbatim>\<open>toUpperCase\<close> maps \<open>a..z\<close> to \<open>A..Z\<close> and the white space removed by
  \<^verbatim>\<open>trim\<close> and matched by \<^verbatim>\<open>\s\<close> is TAB, LF, VT, FF, CR and the blank.
\<close>

definition isDigit :: "char \<Rightarrow> bool" where
  "isDigit c = (c \<in> set ''0123456789'')"

definition isWord :: "char \<Rightarrow> bool" where
  "isWord c = (c \<in> set (''abcdefghijklmnopqrstuvwxyz'' @ ''ABCDEFGHIJKLMNOPQRSTUVWXYZ''
                         @ ''0123456789_''))"

definition isSpace :: "char \<Rightarrow> bool" where
  "isSpace c = (c \<in> set [CHR 0x09, CHR 0x0A, CHR 0x0B, CHR 0x0C, CHR 0x0D, CHR '' ''])"

definition isLineTerminator :: "char \<Rightarrow> bool" where
  "isLineTerminator c = (c = CHR 0x0A \<or> c = CHR 0x0D)"

definition upperChar :: "char \<Rightarrow> char" where
  "upperChar c =
     (case map_of (zip ''abcdefghijklmnopqrstuvwxyz'' ''ABCDEFGHIJKLMNOPQRSTUVWXYZ'') c of
        Some u \<Rightarrow> u | None \<Rightarrow> c)"

definition lowerChar :: "char \<Rightarrow> char" where
  "lowerChar c =
     (case map_of (zip ''ABCDEFGHIJKLMNOPQRSTUVWXYZ'' ''abcdefghijklmnopqrstuvwxyz'') c of
        Some u \<Rightarrow> u | None \<Rightarrow> c)"

definition toUpperCase :: "string \<Rightarrow> string" where
  "toUpperCase s = map upperChar s"

definition toLowerCase :: "string \<Rightarrow> string" where
  "toLowerCase s = map lowerChar s"

definition trim :: "string \<Rightarrow> string" where
  "trim s = rev (dropWhile isSpace (rev (dropWhile isSpace s)))"

definition startsWith :: "string \<Rightarrow> string \<Rightarrow> bool" where
  "startsWith s p = (take (length p) s = p)"

text \<open>\<^verbatim>\<open>s.padStart(2, '0')\<close>: zeros in front up to length two, nothing cut.\<close>

definition padStart2 :: "string \<Rightarrow> string" where
  "padStart2 s = replicate (2 - length s) (CHR ''0'') @ s"

text \<open>
  \<^verbatim>\<open>parseInt\<close> is only ever applied to a capture of \<^verbatim>\<open>\d+\<close> or \<^verbatim>\<open>\d{1,2}\<close>, a
  non-empty string of decimal digits, whose value it returns. The model returns the
  exact value; JavaScript rounds a value of \<open>2^53\<close> or more, which only a track or
  index number of sixteen digits or more can reach.
\<close>

definition digitVal :: "char \<Rightarrow> nat" where
  "digitVal c =
     (case map_of (zip ''0123456789'' [0, 1, 2, 3, 4, 5, 6, 7, 8, 9]) c of
        Some d \<Rightarrow> d | None \<Rightarrow> 0)"

definition parseInt :: "string \<Rightarrow> nat" where
  "parseInt s = foldl (\<lambda>n c. 10 * n + digitVal c) 0 s"

text \<open>\<^verbatim>\<open>n.toString()\<close> on an integer: its decimal digits, with a minus sign when negative.\<close>

fun nat_toString :: "nat \<Rightarrow> string" where
  "nat_toString n =
     (if n < 10 then [''0123456789'' ! n]
      else nat_toString (n div 10) @ [''0123456789'' ! (n mod 10)])"

declare nat_toString.simps [simp del]

definition int_toString :: "int \<Rightarrow> string" where
  "int_toString i = (if i < 0 then CHR ''-'' # nat_toString (nat (- i)) else nat_toString (nat i))"

section \<open>Regular expressions\<close>

text \<open>
  Every regular expression of the parser is a sequence of quantified character classes,
  some of them capture groups. \<open>matchHere\<close> is the backtracking matcher of such a
  sequence at the current position: a greedy quantifier tries the longest run first and
  gives characters back one at a time, a lazy one (\<^verbatim>\<open>+?\<close>) tries the shortest first;
  the first complete match wins, as in JavaScript. The result holds the captures in
  order and the input left after the match.
\<close>

datatype cls = Word | Space | Digit | NonSpace | AnyChar | Lit char

fun inCls :: "cls \<Rightarrow> char \<Rightarrow> bool" where
  "inCls Word c = isWord c"
| "inCls Space c = isSpace c"
| "inCls Digit c = isDigit c"
| "inCls NonSpace c = (\<not> isSpace c)"
| "inCls AnyChar c = (\<not> isLineTerminator c)"
| "inCls (Lit d) c = (c = d)"

datatype atom = Atom (captured: bool) (greedy: bool) (cl: cls) (lo: nat) (hi: "nat option")

definition counts :: "atom \<Rightarrow> string \<Rightarrow> nat list" where
  "counts a s =
     (let avail = length (takeWhile (inCls (cl a)) s);
          top = (case hi a of None \<Rightarrow> avail | Some h \<Rightarrow> min h avail);
          up = [lo a ..< Suc top]
      in if greedy a then rev up else up)"

fun firstSome :: "('a \<Rightarrow> 'b option) \<Rightarrow> 'a list \<Rightarrow> 'b option" where
  "firstSome f [] = None"
| "firstSome f (x # xs) = (case f x of Some y \<Rightarrow> Some y | None \<Rightarrow> firstSome f xs)"

primrec matchHere :: "atom list \<Rightarrow> string \<Rightarrow> (string list \<times> string) option" where
  "matchHere [] = (\<lambda>s. Some ([], s))"
| "matchHere (a # as) = (\<lambda>s.
     firstSome (\<lambda>k. case matchHere as (drop k s) of
                       None \<Rightarrow> None
                     | Some (caps, rest) \<Rightarrow>
                         Some (if captured a then take k s # caps else caps, rest))
       (counts a s))"

text \<open>A pattern without \<^verbatim>\<open>^\<close> is tried at every position, from the left.\<close>

fun searchRe :: "atom list \<Rightarrow> string \<Rightarrow> (string list \<times> string) option" where
  "searchRe re [] = matchHere re []"
| "searchRe re (c # cs) =
     (case matchHere re (c # cs) of Some r \<Rightarrow> Some r | None \<Rightarrow> searchRe re cs)"

text \<open>
  \<^verbatim>\<open>s.replace(/re/g, callback)\<close>: every match, left to right, is replaced by what
  the callback returns for the captures of that match; the text between matches is kept,
  and replaced text is not scanned again. \<open>skip\<close> counts the characters of the current
  match still to be passed over; after an empty match the scan moves on by one character.
\<close>

fun replaceAll :: "atom list \<Rightarrow> (string list \<Rightarrow> string) \<Rightarrow> nat \<Rightarrow> string \<Rightarrow> string" where
  "replaceAll re f skip [] =
     (case (skip, matchHere re []) of (0, Some (caps, _)) \<Rightarrow> f caps | _ \<Rightarrow> [])"
| "replaceAll re f (Suc k) (c # cs) = replaceAll re f k cs"
| "replaceAll re f 0 (c # cs) =
     (case matchHere re (c # cs) of
        None \<Rightarrow> c # replaceAll re f 0 cs
      | Some (caps, rest) \<Rightarrow>
          (let used = length (c # cs) - length rest
           in if used = 0 then f caps @ c # replaceAll re f 0 cs
              else f caps @ replaceAll re f (used - 1) cs))"

declare replaceAll.simps [simp del]

text \<open>The patterns of the source, atom by atom.\<close>

definition oneOrMore :: "cls \<Rightarrow> atom" where "oneOrMore c = Atom False True c 1 None"
definition zeroOrMore :: "cls \<Rightarrow> atom" where "zeroOrMore c = Atom False True c 0 None"
definition oneOrTwo :: "cls \<Rightarrow> atom" where "oneOrTwo c = Atom False True c 1 (Some 2)"
definition lit :: "char \<Rightarrow> atom" where "lit c = Atom False True (Lit c) 1 (Some 1)"
definition cap :: "atom \<Rightarrow> atom" where "cap a = Atom True (greedy a) (cl a) (lo a) (hi a)"
definition lazy :: "atom \<Rightarrow> atom" where "lazy a = Atom (captured a) False (cl a) (lo a) (hi a)"

definition re_TITLE :: "atom list" where
  \<comment> \<open>\<^verbatim>\<open>/^\w+\s+(.+)/\<close>, also used for PERFORMER\<close>
  "re_TITLE = [oneOrMore Word, oneOrMore Space, cap (oneOrMore AnyChar)]"

definition re_unquote :: "atom list" where
  \<comment> \<open>\<^verbatim>\<open>/^\"(.*)\"/\<close>\<close>
  "re_unquote = [lit (CHR 0x22), cap (zeroOrMore AnyChar), lit (CHR 0x22)]"

definition re_FILE :: "atom list" where
  \<comment> \<open>\<^verbatim>\<open>/^\w+\s+\"(.+)\"\s+(.+)/\<close>\<close>
  "re_FILE = [oneOrMore Word, oneOrMore Space, lit (CHR 0x22), cap (oneOrMore AnyChar), lit (CHR 0x22),
              oneOrMore Space, cap (oneOrMore AnyChar)]"

definition re_TRACK :: "atom list" where
  \<comment> \<open>\<^verbatim>\<open>/^\w+\s+(\d+)\s+(\S+)/\<close>\<close>
  "re_TRACK = [oneOrMore Word, oneOrMore Space, cap (oneOrMore Digit), oneOrMore Space, cap (oneOrMore NonSpace)]"

definition re_INDEX :: "atom list" where
  \<comment> \<open>\<^verbatim>\<open>/^\w+\s+(\d+)\s+(\d{1,2}):(\d{1,2}):(\d{1,2})/\<close>\<close>
  "re_INDEX = [oneOrMore Word, oneOrMore Space, cap (oneOrMore Digit), oneOrMore Space,
               cap (oneOrTwo Digit), lit (CHR '':''), cap (oneOrTwo Digit), lit (CHR '':''),
               cap (oneOrTwo Digit)]"

definition re_PREGAP :: "atom list" where
  \<comment> \<open>\<^verbatim>\<open>/\w+\s+(\d{1,2}):(\d{1,2}):(\d{1,2})/\<close>, not anchored\<close>
  "re_PREGAP = [oneOrMore Word, oneOrMore Space,
                cap (oneOrTwo Digit), lit (CHR '':''), cap (oneOrTwo Digit), lit (CHR '':''),
                cap (oneOrTwo Digit)]"

definition re_TAG :: "atom list" where
  \<comment> \<open>\<^verbatim>\<open>/{(.+?)}/g\<close>\<close>
  "re_TAG = [lit (CHR ''{''), cap (lazy (oneOrMore AnyChar)), lit (CHR ''}'')]"

section \<open>The time code: class cuetime\<close>

text \<open>
  \<^verbatim>\<open>
  class cuetime {
    no; minutes; seconds; frames;
    constructor(n, m, s, f) { this.no = n; this.minutes = m; this.seconds = s; this.frames = f; }
    toFrames() { return (this.seconds * 75) + (this.minutes * 60 * 75) + this.frames; }
    fromFrames(f) {
      this.minutes = Math.floor(f / 4500);
      this.seconds = Math.floor((f % 4500) / 75);
      this.frames = f % 75;
    }
  }
  \<close>
\<close>

record cuetime =
  no :: nat
  minutes :: int
  seconds :: int
  frames :: int

definition new_cuetime :: "nat \<Rightarrow> int \<Rightarrow> int \<Rightarrow> int \<Rightarrow> cuetime" where
  "new_cuetime n m s f = \<lparr>no = n, minutes = m, seconds = s, frames = f\<rparr>"

definition toFrames :: "cuetime \<Rightarrow> int" where
  "toFrames t = (seconds t * 75) + (minutes t * 60 * 75) + frames t"

definition fromFrames :: "cuetime \<Rightarrow> int \<Rightarrow> cuetime" where
  "fromFrames t f =
     t\<lparr>minutes := f div 4500, seconds := (js_rem f 4500) div 75, frames := js_rem f 75\<rparr>"

text \<open>
  \<^verbatim>\<open>
  toString() {
    return this.minutes.toString().padStart(2, '0') + ":" +
      this.seconds.toString().padStart(2, '0') + ":" +
      this.frames.toString().padStart(2, '0');
  }
  \<close>
\<close>

definition cuetime_toString :: "cuetime \<Rightarrow> string" where
  "cuetime_toString t =
     padStart2 (int_toString (minutes t)) @ '':'' @
     padStart2 (int_toString (seconds t)) @ '':'' @
     padStart2 (int_toString (frames t))"

section \<open>The track: class cdtrack\<close>

text \<open>
  The fields of the class; \<^verbatim>\<open>null\<close> is \<open>None\<close>. The fields \<^verbatim>\<open>file\<close> and \<^verbatim>\<open>type\<close>
  are \<open>tfile\<close> and \<open>ttype\<close> here (both words are reserved in Isabelle). The field
  \<^verbatim>\<open>hash\<close> is left out: nothing of the disc model reads or writes it.
\<close>

record cdtrack =
  tfile :: "string option"
  ttype :: string
  no :: nat
  title :: "string option"
  artist :: "string option"
  pregap :: "cuetime option"
  indexes :: "cuetime list"
  byteStart :: int
  byteSize :: int
  shared :: "string option"

definition indexExists :: "cdtrack \<Rightarrow> nat \<Rightarrow> bool" where
  \<comment> \<open>\<^verbatim>\<open>this.indexes.some(a => a.no == ind)\<close>\<close>
  "indexExists tr ind = list_ex (\<lambda>a. cuetime.no a = ind) (indexes tr)"

definition isData :: "cdtrack \<Rightarrow> bool" where
  "isData tr = (ttype tr \<noteq> ''AUDIO'')"

definition noStr :: "cdtrack \<Rightarrow> string" where
  "noStr tr = padStart2 (nat_toString (cdtrack.no tr))"

text \<open>\<^verbatim>\<open>if (tr.file)\<close>, \<^verbatim>\<open>if (tr.title)\<close>: a string is truthy when it is neither null nor empty.\<close>

definition truthy :: "string option \<Rightarrow> bool" where
  "truthy x = (case x of None \<Rightarrow> False | Some s \<Rightarrow> s \<noteq> [])"

section \<open>The sector-size table and the supported file types\<close>

definition SUPPORTED_TRACK_FILES :: "string list" where
  "SUPPORTED_TRACK_FILES = [''BINARY'', ''WAVE'']"

definition sectorsByType :: "string \<Rightarrow> int option" where
  "sectorsByType = map_of
     [(''AUDIO'', 2352), (''CDG'', 2448), (''MODE1_RAW'', 2352), (''MODE1/2048'', 2048),
      (''MODE1/2352'', 2352), (''MODE2_RAW'', 2352), (''MODE2/2048'', 2048),
      (''MODE2/2324'', 2324), (''MODE2/2336'', 2336), (''MODE2/2352'', 2352),
      (''CDI/2336'', 2336), (''CDI/2352'', 2352)]"

section \<open>The disc: class cdinfos\<close>

text \<open>
  The object's fields. \<^verbatim>\<open>this.opentrack\<close> is not a field of the model: the source
  assigns it in one place only, in the TRACK branch of the parser, to the track object it
  pushes onto \<^verbatim>\<open>this.tracks\<close> in the same branch. It is therefore \<^verbatim>\<open>null\<close> exactly
  while \<^verbatim>\<open>tracks\<close> is empty and otherwise the very object at the end of \<^verbatim>\<open>tracks\<close>,
  so that writing a field of the open track writes the last element of the list.
\<close>

record cdinfos =
  CD_ARTIST :: string
  CD_TITLE :: string
  CD_SIZE :: int
  CD_FILE :: string
  FILE_LOADED :: "string option"
  FILE_DIR :: "string option"
  tracks :: "cdtrack list"
  openfile :: "string option"
  readyFiles :: "string list option"

definition new_cdinfos :: cdinfos where
  "new_cdinfos = \<lparr>CD_ARTIST = [], CD_TITLE = [], CD_SIZE = 0, CD_FILE = [],
     FILE_LOADED = None, FILE_DIR = None, tracks = [], openfile = None, readyFiles = None\<rparr>"

definition opentrack :: "cdinfos \<Rightarrow> cdtrack option" where
  "opentrack st = (if tracks st = [] then None else Some (last (tracks st)))"

definition updOpen :: "(cdtrack \<Rightarrow> cdtrack) \<Rightarrow> cdinfos \<Rightarrow> cdinfos" where
  "updOpen f st = st\<lparr>tracks := butlast (tracks st) @ [f (last (tracks st))]\<rparr>"

section \<open>Errors\<close>

text \<open>
  Every \<^verbatim>\<open>throw\<close> of the source is a value. \<open>perror\<close> holds what the line parser and
  \<^verbatim>\<open>validCheck\<close> throw, \<open>error\<close> what the other methods throw; \<open>TypeError\<close> is the
  run-time error of reading a property of \<^verbatim>\<open>null\<close> or \<^verbatim>\<open>undefined\<close>.
\<close>

datatype perror =
    BadSyntax
  | UnsupportedFileType string
  | NoFileBeforeTrack
  | TrackAlreadyDefined string
  | UnsupportedTrackType string
  | NoTrackYet
  | DuplicateIndex nat string
  | TrackHasNoIndex nat

datatype error =
    LoadingAgain
  | NotCueFile
  | CannotLoadFile string
  | CueParseError nat perror
  | NoTracks
  | Invalid perror
  | FileNotFound string
  | TypeError
  | NotANumber
  | DuplicateNames

section \<open>The line parser: cdinfos.cueParser\<close>

definition validCheck :: "cdtrack \<Rightarrow> perror + unit" where
  \<comment> \<open>\<^verbatim>\<open>if (!this.indexExists(1)) throw `TRACK ${this.no} has no INDEX`\<close>\<close>
  "validCheck tr = (if \<not> indexExists tr 1 then Inl (TrackHasNoIndex (cdtrack.no tr)) else Inr ())"

definition validCheckOpen :: "cdinfos \<Rightarrow> perror + unit" where
  \<comment> \<open>\<^verbatim>\<open>this.opentrack?.validCheck()\<close>\<close>
  "validCheckOpen st = (case opentrack st of None \<Rightarrow> Inr () | Some tr \<Rightarrow> validCheck tr)"

definition unquote :: "string \<Rightarrow> string" where
  \<comment> \<open>\<^verbatim>\<open>res[1].replace(/^\"(.*)\"/, "$1")\<close>: the first match gives way to its capture\<close>
  "unquote s = (case matchHere re_unquote s of Some ([inner], rest) \<Rightarrow> inner @ rest | _ \<Rightarrow> s)"

definition new_cdtrack :: cdtrack where
  "new_cdtrack = \<lparr>tfile = None, ttype = [], no = 0, title = None, artist = None, pregap = None,
     indexes = [], byteStart = 0, byteSize = 0, shared = None\<rparr>"

text \<open>
  The method is one chain of \<^verbatim>\<open>if (lineup.startsWith(...)) { ...; return; }\<close>. Each
  body is a definition here, \<open>cueParser\<close> is the chain. Every body throws before it
  writes, so a throw leaves the object as it was: the result is the error alone, or the
  new state. A capture list of another length than the pattern's groups cannot arise;
  the catch-all case of each match is the \<^verbatim>\<open>res == null\<close> branch.
\<close>

definition parseTITLE :: "cdinfos \<Rightarrow> string \<Rightarrow> perror + cdinfos" where
  "parseTITLE st lineup =
     (case matchHere re_TITLE lineup of
        Some ([r1], _) \<Rightarrow>
          (if opentrack st \<noteq> None then Inr (updOpen (\<lambda>tr. tr\<lparr>title := Some (unquote r1)\<rparr>) st)
           else Inr (st\<lparr>CD_TITLE := unquote r1\<rparr>))
      | _ \<Rightarrow> Inl BadSyntax)"

definition parsePERFORMER :: "cdinfos \<Rightarrow> string \<Rightarrow> perror + cdinfos" where
  "parsePERFORMER st lineup =
     (case matchHere re_TITLE lineup of
        Some ([r1], _) \<Rightarrow>
          (if opentrack st \<noteq> None then Inr (updOpen (\<lambda>tr. tr\<lparr>artist := Some (unquote r1)\<rparr>) st)
           else Inr (st\<lparr>CD_ARTIST := unquote r1\<rparr>))
      | _ \<Rightarrow> Inl BadSyntax)"

text \<open>The FILE pattern runs on the line as written, the others on the upper-cased line.\<close>

definition parseFILE :: "cdinfos \<Rightarrow> string \<Rightarrow> perror + cdinfos" where
  "parseFILE st line =
     (case matchHere re_FILE line of
        Some ([r1, r2], _) \<Rightarrow>
          (if r2 \<notin> set SUPPORTED_TRACK_FILES then Inl (UnsupportedFileType r2)
           else case validCheckOpen st of
                  Inl e \<Rightarrow> Inl e
                | Inr _ \<Rightarrow> Inr (st\<lparr>openfile := Some r1\<rparr>))
      | _ \<Rightarrow> Inl BadSyntax)"

definition parseTRACK :: "cdinfos \<Rightarrow> string \<Rightarrow> perror + cdinfos" where
  "parseTRACK st lineup =
     (if openfile st = None \<and> length (tracks st) = 0 then Inl NoFileBeforeTrack
      else case validCheckOpen st of
             Inl e \<Rightarrow> Inl e
           | Inr _ \<Rightarrow>
               (case matchHere re_TRACK lineup of
                  Some ([r1, r2], _) \<Rightarrow>
                    (if list_ex (\<lambda>t. cdtrack.no t = parseInt r1) (tracks st)
                     then Inl (TrackAlreadyDefined r1)
                     else if sectorsByType r2 = None then Inl (UnsupportedTrackType r2)
                     else Inr (st\<lparr>tracks := tracks st @
                                 [new_cdtrack\<lparr>no := parseInt r1, ttype := toUpperCase r2,
                                              tfile := openfile st\<rparr>],
                               openfile := None\<rparr>))
                | _ \<Rightarrow> Inl BadSyntax))"

definition parseINDEX :: "cdinfos \<Rightarrow> string \<Rightarrow> perror + cdinfos" where
  "parseINDEX st lineup =
     (case opentrack st of
        None \<Rightarrow> Inl NoTrackYet
      | Some ot \<Rightarrow>
          (case matchHere re_INDEX lineup of
             Some ([r1, r2, r3, r4], _) \<Rightarrow>
               (if indexExists ot (parseInt r1) then Inl (DuplicateIndex (cdtrack.no ot) r1)
                else Inr (updOpen (\<lambda>tr. tr\<lparr>indexes := indexes tr @
                       [new_cuetime (parseInt r1) (int (parseInt r2)) (int (parseInt r3))
                          (int (parseInt r4))]\<rparr>) st))
           | _ \<Rightarrow> Inl BadSyntax))"

definition parsePREGAP :: "cdinfos \<Rightarrow> string \<Rightarrow> perror + cdinfos" where
  "parsePREGAP st lineup =
     (case opentrack st of
        None \<Rightarrow> Inl NoTrackYet
      | Some ot \<Rightarrow>
          (case searchRe re_PREGAP lineup of
             Some ([r1, r2, r3], _) \<Rightarrow>
               Inr (updOpen (\<lambda>tr. tr\<lparr>pregap :=
                      Some (new_cuetime 0 (int (parseInt r1)) (int (parseInt r2))
                              (int (parseInt r3)))\<rparr>) st)
           | _ \<Rightarrow> Inl BadSyntax))"

definition cueParser :: "cdinfos \<Rightarrow> string \<Rightarrow> perror + cdinfos" where
  "cueParser st line =
    (let lineup = toUpperCase line in
     if startsWith lineup ''REM'' \<or> startsWith lineup '';'' then Inr st
     else if startsWith lineup ''TITLE'' then parseTITLE st lineup
     else if startsWith lineup ''PERFORMER'' then parsePERFORMER st lineup
     else if startsWith lineup ''FILE'' then parseFILE st line
     else if startsWith lineup ''TRACK'' then parseTRACK st lineup
     else if startsWith lineup ''INDEX'' then parseINDEX st lineup
     else if startsWith lineup ''PREGAP'' then parsePREGAP st lineup
     else Inr st)"

section \<open>Loading a sheet: cdinfos.loadCue\<close>

text \<open>
  What the method takes from outside the repository is a parameter: the functions of
  Node's \<^verbatim>\<open>path\<close> and \<^verbatim>\<open>fs\<close> modules and the two helpers of the author's library
  (\<^verbatim>\<open>getFileLines\<close>, \<^verbatim>\<open>sanitizePath\<close>). \<open>path_parse_name p\<close> is
  \<^verbatim>\<open>PATH.parse(PATH.basename(p)).name\<close>, \<open>statSync_size p\<close> is \<^verbatim>\<open>FS.statSync(p).size\<close>.
  The calls of the logger have no effect on the object and are left out.
\<close>

record env =
  getFileLines :: "string \<Rightarrow> string list option"
  sanitizePath :: "string \<Rightarrow> string"
  path_normalize :: "string \<Rightarrow> string"
  path_extname :: "string \<Rightarrow> string"
  path_resolve :: "string \<Rightarrow> string"
  path_dirname :: "string \<Rightarrow> string"
  path_parse_name :: "string \<Rightarrow> string"
  path_join :: "string \<Rightarrow> string \<Rightarrow> string"
  existsSync :: "string \<Rightarrow> bool"
  statSync_size :: "string \<Rightarrow> nat"

text \<open>
  The loop over the lines. A throw of the line parser is caught and thrown again with
  the 1-based line number; the object is then as the lines before left it, which is the
  second component of an error result.
\<close>

fun parseLines :: "cdinfos \<Rightarrow> nat \<Rightarrow> string list \<Rightarrow> (error \<times> cdinfos) + cdinfos" where
  "parseLines st l [] = Inr st"
| "parseLines st l (x # xs) =
     (let line = trim x in
      if length line = 0 then parseLines st (l + 1) xs
      else case cueParser st line of
             Inl e \<Rightarrow> Inl (CueParseError (l + 1) e, st)
           | Inr st' \<Rightarrow> parseLines st' (l + 1) xs)"

text \<open>
  The second pass, one iteration of which is \<open>ownerStep\<close> followed by \<open>sizeStep\<close>:
  \<^verbatim>\<open>
  for (let i = 0, ot = null, os = null; i < this.tracks.length; i++) {
    let tr = this.tracks[i]; let tr1 = this.tracks[i + 1];
    if (tr.file) {
      ot = tr;
      let f_full = PATH.join(this.FILE_DIR, ot.file);
      if (!FS.existsSync(f_full)) throw `File "${ot.file}" does not exist in .cue directory`;
      let stat = FS.statSync(f_full);
      os = stat.size;
      this.CD_SIZE += os;
    } else {
      tr.shared = ot.file;
    }
    if (tr1 && !tr1.file) {
      tr1.byteStart = sectorsByType[ot.type] * tr1.indexes[0].toFrames();
      tr.byteSize = tr1.byteStart - tr.byteStart;
    } else {
      tr.byteSize = os - tr.byteStart;
    }
  }
  \<close>
  \<open>ot\<close> is the owner as it was when the loop met it: the loop reads its \<^verbatim>\<open>file\<close> and
  \<^verbatim>\<open>type\<close> only, which it never writes. \<open>os\<close> starts as \<^verbatim>\<open>null\<close>, which counts as 0
  in a subtraction. A type outside the table would make the product \<^verbatim>\<open>NaN\<close> without
  a throw; the model has no such number and stops with \<open>NotANumber\<close> there (the parser
  admits table types only, so \<open>loadCue\<close> never takes that branch).
\<close>

definition ownerStep ::
  "env \<Rightarrow> string \<Rightarrow> cdtrack option \<Rightarrow> int \<Rightarrow> int \<Rightarrow> cdtrack
     \<Rightarrow> error + (cdtrack \<times> cdtrack option \<times> int \<times> int)" where
  "ownerStep E dir ot os sz tr =
     (if truthy (tfile tr) then
        (case tfile tr of
           None \<Rightarrow> Inl TypeError
         | Some f \<Rightarrow>
             (let f_full = path_join E dir f in
              if \<not> existsSync E f_full then Inl (FileNotFound f)
              else Inr (tr, Some tr, int (statSync_size E f_full),
                        sz + int (statSync_size E f_full))))
      else
        (case ot of
           None \<Rightarrow> Inl TypeError
         | Some owner \<Rightarrow> Inr (tr\<lparr>shared := tfile owner\<rparr>, ot, os, sz)))"

definition sizeStep ::
  "cdtrack option \<Rightarrow> int \<Rightarrow> cdtrack \<Rightarrow> cdtrack list \<Rightarrow> error + (cdtrack \<times> cdtrack list)" where
  "sizeStep ot os tr rest =
     (case rest of
        [] \<Rightarrow> Inr (tr\<lparr>byteSize := os - byteStart tr\<rparr>, [])
      | tr1 # others \<Rightarrow>
          (if \<not> truthy (tfile tr1) then
             (case ot of
                None \<Rightarrow> Inl TypeError
              | Some owner \<Rightarrow>
                  (case indexes tr1 of
                     [] \<Rightarrow> Inl TypeError
                   | i0 # _ \<Rightarrow>
                       (case sectorsByType (ttype owner) of
                          None \<Rightarrow> Inl NotANumber
                        | Some ss \<Rightarrow>
                            Inr (tr\<lparr>byteSize := ss * toFrames i0 - byteStart tr\<rparr>,
                                 tr1\<lparr>byteStart := ss * toFrames i0\<rparr> # others))))
           else Inr (tr\<lparr>byteSize := os - byteStart tr\<rparr>, rest)))"

function layout ::
  "env \<Rightarrow> string \<Rightarrow> cdtrack option \<Rightarrow> int \<Rightarrow> int \<Rightarrow> cdtrack list
     \<Rightarrow> (error \<times> cdtrack list \<times> int) + (cdtrack list \<times> int)" where
  "layout E dir ot os sz [] = Inr ([], sz)"
| "layout E dir ot os sz (tr # rest) =
     (case ownerStep E dir ot os sz tr of
        Inl e \<Rightarrow> Inl (e, tr # rest, sz)
      | Inr (tr', ot', os', sz') \<Rightarrow>
          (case sizeStep ot' os' tr' rest of
             Inl e \<Rightarrow> Inl (e, tr' # rest, sz')
           | Inr (tr'', rest') \<Rightarrow>
               (case layout E dir ot' os' sz' rest' of
                  Inl (e, r, s) \<Rightarrow> Inl (e, tr'' # r, s)
                | Inr (r, s) \<Rightarrow> Inr (tr'' # r, s))))"
  by pat_completeness auto
termination
  by (relation "measure (\<lambda>(E, dir, ot, os, sz, trs). length trs)")
     (auto simp: sizeStep_def split: list.splits if_splits option.splits)

definition loadCue :: "env \<Rightarrow> cdinfos \<Rightarrow> string \<Rightarrow> (error \<times> cdinfos) + cdinfos" where
  "loadCue E st input0 =
    (if length (tracks st) > 0 then Inl (LoadingAgain, st)
     else
       (let input = path_normalize E input0 in
        if toLowerCase (path_extname E input) \<noteq> ''.cue'' then Inl (NotCueFile, st)
        else case getFileLines E input of
          None \<Rightarrow> Inl (CannotLoadFile input, st)
        | Some lines \<Rightarrow>
            (case parseLines st 0 lines of
               Inl r \<Rightarrow> Inl r
             | Inr st1 \<Rightarrow>
                 (let st2 = st1\<lparr>FILE_LOADED := Some (path_resolve E input),
                                FILE_DIR := Some (path_dirname E (path_resolve E input))\<rparr>
                  in if length (tracks st2) = 0 then Inl (NoTracks, st2)
                     else case validCheckOpen st2 of
                       Inl e \<Rightarrow> Inl (Invalid e, st2)
                     | Inr _ \<Rightarrow>
                         (let st3 = (if CD_TITLE st2 = [] then st2\<lparr>CD_TITLE := path_parse_name E input\<rparr>
                                     else st2);
                              st4 = st3\<lparr>CD_FILE := sanitizePath E (CD_TITLE st3)\<rparr>
                          in case layout E (path_dirname E (path_resolve E input)) None 0
                                    (CD_SIZE st4) (tracks st4) of
                               Inl (e, trs, sz) \<Rightarrow> Inl (e, st4\<lparr>tracks := trs, CD_SIZE := sz\<rparr>)
                             | Inr (trs, sz) \<Rightarrow> Inr (st4\<lparr>tracks := trs, CD_SIZE := sz\<rparr>))))))"

section \<open>Output names: cdinfos.prepareFilenames\<close>

text \<open>
  The callback of the template substitution:
  \<^verbatim>\<open>
  switch(B){
    case "cdt": return this.CD_TITLE;
    case "cda": return this.CD_ARTIST;
    case "tt": return tr.title ?? "untitled";
    case "ta": return tr.artist ?? "unknown artist";
    case "no": return tr.noStr;
    default: return B;
  }
  \<close>
\<close>

definition tagValue :: "cdinfos \<Rightarrow> cdtrack \<Rightarrow> string list \<Rightarrow> string" where
  "tagValue st tr caps =
     (case caps of
        [] \<Rightarrow> []
      | B # _ \<Rightarrow>
          if B = ''cdt'' then CD_TITLE st
          else if B = ''cda'' then CD_ARTIST st
          else if B = ''tt'' then (case title tr of None \<Rightarrow> ''untitled'' | Some t \<Rightarrow> t)
          else if B = ''ta'' then (case artist tr of None \<Rightarrow> ''unknown artist'' | Some a \<Rightarrow> a)
          else if B = ''no'' then noStr tr
          else B)"

definition defaultTemplate :: "cdtrack list \<Rightarrow> string" where
  "defaultTemplate trs =
     (if length (filter (\<lambda>t. title t \<noteq> None) trs) = length trs then
        (if length (filter (\<lambda>t. artist t \<noteq> None) trs) > 0 then ''{no}. {ta} - {tt}''
         else ''{no}. {tt}'')
      else ''{cdt} - Track {no}'')"

text \<open>\<^verbatim>\<open>xs.indexOf(x)\<close> for an \<open>x\<close> of \<open>xs\<close>: the position of its first occurrence.\<close>

definition indexOf :: "'a list \<Rightarrow> 'a \<Rightarrow> nat" where
  "indexOf xs x = length (takeWhile (\<lambda>y. y \<noteq> x) xs)"

definition hasDuplicates :: "string list \<Rightarrow> bool" where
  \<comment> \<open>\<^verbatim>\<open>this.readyFiles.filter((it, ind) => this.readyFiles.indexOf(it) !== ind).length>0\<close>\<close>
  "hasDuplicates xs =
     (length (filter (\<lambda>(it, ind). indexOf xs it \<noteq> ind) (zip xs [0..<length xs])) > 0)"

text \<open>
  \<open>template\<close> is \<open>None\<close> when the caller passes none; \<^verbatim>\<open>!template\<close> also holds for
  the empty string. The names are stored before the duplicate check, so a throw leaves
  them in the object.
\<close>

definition prepareFilenames ::
  "env \<Rightarrow> cdinfos \<Rightarrow> string option \<Rightarrow> (error \<times> cdinfos) + cdinfos" where
  "prepareFilenames E st template =
     (let tpl = (if \<not> truthy template then defaultTemplate (tracks st)
                 else (case template of Some t \<Rightarrow> t | None \<Rightarrow> []));
          names = map (\<lambda>tr. sanitizePath E (replaceAll re_TAG (tagValue st tr) 0 tpl)) (tracks st);
          st' = st\<lparr>readyFiles := Some names\<rparr>
      in if hasDuplicates names then Inl (DuplicateNames, st') else Inr st')"

section \<open>The new sheet: cdinfos.buildCueFileForCBAE\<close>

text \<open>
  \<open>TAB\<close> and \<open>QUOTE\<close> are the tab and the double quote of the template literals.
  The lines of one track, from the body of the loop:
  \<^verbatim>\<open>
  let tr = this.tracks[i];
  let fn = this.readyFiles[i];
  if (tr.isData) {
    b.push(`\tFILE "${fn}.bin" BINARY`);
  } else {
    let tp = aExt.slice(1).toUpperCase();
    b.push(`\tFILE "${fn}${aExt}" ${tp}`);
  }
  if(tr.title)  b.push(`\t\tTITLE "${tr.title}"`);
  if(tr.artist) b.push(`\t\tPERFORMER "${tr.artist}"`);
  b.push(`\t\tTRACK ${tr.noStr} ${tr.type}`);
  if (tr.pregap)
    b.push(`\t\tPREGAP ${tr.pregap}`);
  let i0 = tr.indexes[0].toFrames();
  for(let iit of tr.indexes) {
    let inew = new cuetime(iit.no,0,0,0);
      inew.fromFrames(iit.toFrames() - i0);
    b.push(`\t\tINDEX ${inew.no.toString().padStart(2,'0')} ${inew}`);
  }
  \<close>
  \<^verbatim>\<open>tr.indexes[0]\<close> of a track without indexes is \<^verbatim>\<open>undefined\<close>, and the call on it
  a \<open>TypeError\<close>.
\<close>

definition TAB :: string where "TAB = [CHR 0x09]"
definition QUOTE :: string where "QUOTE = [CHR 0x22]"

definition indexLine :: "int \<Rightarrow> cuetime \<Rightarrow> string" where
  "indexLine i0 iit =
     (let inew = fromFrames (new_cuetime (cuetime.no iit) 0 0 0) (toFrames iit - i0)
      in TAB @ TAB @ ''INDEX '' @ padStart2 (nat_toString (cuetime.no inew)) @ '' '' @
         cuetime_toString inew)"

definition trackLines :: "string \<Rightarrow> string \<Rightarrow> cdtrack \<Rightarrow> error + string list" where
  "trackLines aExt fn tr =
     (case indexes tr of
        [] \<Rightarrow> Inl TypeError
      | first # _ \<Rightarrow>
          Inr ((if isData tr then [TAB @ ''FILE '' @ QUOTE @ fn @ ''.bin'' @ QUOTE @ '' BINARY'']
                else [TAB @ ''FILE '' @ QUOTE @ fn @ aExt @ QUOTE @ '' '' @ toUpperCase (drop 1 aExt)])
               @ (if truthy (title tr)
                  then [TAB @ TAB @ ''TITLE '' @ QUOTE @ (case title tr of Some t \<Rightarrow> t | None \<Rightarrow> []) @ QUOTE]
                  else [])
               @ (if truthy (artist tr)
                  then [TAB @ TAB @ ''PERFORMER '' @ QUOTE @ (case artist tr of Some a \<Rightarrow> a | None \<Rightarrow> []) @ QUOTE]
                  else [])
               @ [TAB @ TAB @ ''TRACK '' @ noStr tr @ '' '' @ ttype tr]
               @ (case pregap tr of
                    None \<Rightarrow> []
                  | Some p \<Rightarrow> [TAB @ TAB @ ''PREGAP '' @ cuetime_toString p])
               @ map (indexLine (toFrames first)) (indexes tr)))"

text \<open>
  The loop over the tracks; \<^verbatim>\<open>this.readyFiles[i]\<close> beyond the end of the array is
  \<^verbatim>\<open>undefined\<close>, which a template literal prints as that word.
\<close>

fun allTrackLines :: "string \<Rightarrow> string list \<Rightarrow> nat \<Rightarrow> cdtrack list \<Rightarrow> error + string list" where
  "allTrackLines aExt rf i [] = Inr []"
| "allTrackLines aExt rf i (tr # trs) =
     (case trackLines aExt (if i < length rf then rf ! i else ''undefined'') tr of
        Inl e \<Rightarrow> Inl e
      | Inr ls \<Rightarrow>
          (case allTrackLines aExt rf (i + 1) trs of
             Inl e \<Rightarrow> Inl e
           | Inr more_lines \<Rightarrow> Inr (ls @ more_lines)))"

definition buildCueFileForCBAE ::
  "env \<Rightarrow> cdinfos \<Rightarrow> string \<Rightarrow> (error \<times> cdinfos) + (string list \<times> cdinfos)" where
  "buildCueFileForCBAE E st aExt =
     (case (case readyFiles st of None \<Rightarrow> prepareFilenames E st None | Some _ \<Rightarrow> Inr st) of
        Inl r \<Rightarrow> Inl r
      | Inr st' \<Rightarrow>
          (case allTrackLines aExt (case readyFiles st' of Some rf \<Rightarrow> rf | None \<Rightarrow> []) 0
                  (tracks st') of
             Inl e \<Rightarrow> Inl (e, st')
           | Inr ls \<Rightarrow>
               Inr ((if CD_ARTIST st' \<noteq> [] then [TAB @ ''PERFORMER '' @ QUOTE @ CD_ARTIST st' @ QUOTE]
                     else [])
                    @ [TAB @ ''TITLE '' @ QUOTE @ CD_TITLE st' @ QUOTE, []] @ ls, st')))"

section \<open>Example sheets\<close>

text \<open>
  A small file system for the concrete runs below: the directory \<open>/cd\<close> holds the
  data file \<open>a.bin\<close> of 1000000 bytes and three sheets. In \<open>a.cue\<close> the second track
  has a pregap index; in \<open>b.cue\<close> the third track starts before the second; \<open>c.cue\<close>
  has a time stamp with 99 seconds and 99 frames.
\<close>

definition sheetA :: "string list" where
  "sheetA =
     [''FILE '' @ QUOTE @ ''a.bin'' @ QUOTE @ '' BINARY'',
      ''  TRACK 01 MODE1/2352'',
      ''    INDEX 01 00:00:00'',
      ''  TRACK 02 AUDIO'',
      ''    INDEX 00 00:01:00'',
      ''    INDEX 01 00:02:00'']"

definition sheetB :: "string list" where
  "sheetB =
     [''FILE '' @ QUOTE @ ''a.bin'' @ QUOTE @ '' BINARY'',
      ''  TRACK 01 MODE1/2352'',
      ''    INDEX 01 00:00:00'',
      ''  TRACK 02 AUDIO'',
      ''    INDEX 01 00:02:00'',
      ''  TRACK 03 AUDIO'',
      ''    INDEX 01 00:01:00'']"

definition sheetC :: "string list" where
  "sheetC =
     [''FILE '' @ QUOTE @ ''a.bin'' @ QUOTE @ '' BINARY'',
      ''  TRACK 01 AUDIO'',
      ''    INDEX 01 00:99:99'']"

definition exampleEnv :: env where
  "exampleEnv =
     \<lparr>getFileLines = (\<lambda>p. if p = ''a.cue'' then Some sheetA
                            else if p = ''b.cue'' then Some sheetB
                            else if p = ''c.cue'' then Some sheetC else None),
      sanitizePath = (\<lambda>s. s),
      path_normalize = (\<lambda>p. p),
      path_extname = (\<lambda>p. drop (length p - 4) p),
      path_resolve = (\<lambda>p. ''/cd/'' @ p),
      path_dirname = (\<lambda>p. ''/cd''),
      path_parse_name = (\<lambda>p. take (length p - 4) p),
      path_join = (\<lambda>d f. d @ ''/'' @ f),
      existsSync = (\<lambda>p. p = ''/cd/a.bin''),
      statSync_size = (\<lambda>p. 1000000)\<rparr>"

definition discA :: cdinfos where
  "discA =
     \<lparr>CD_ARTIST = [], CD_TITLE = ''a'', CD_SIZE = 1000000, CD_FILE = ''a'',
      FILE_LOADED = Some ''/cd/a.cue'', FILE_DIR = Some ''/cd'',
      tracks =
        [\<lparr>tfile = Some ''a.bin'', ttype = ''MODE1/2352'', no = 1, title = None, artist = None,
          pregap = None, indexes = [new_cuetime 1 0 0 0],
          byteStart = 0, byteSize = 176400, shared = None\<rparr>,
         \<lparr>tfile = None, ttype = ''AUDIO'', no = 2, title = None, artist = None,
          pregap = None, indexes = [new_cuetime 0 0 1 0, new_cuetime 1 0 2 0],
          byteStart = 176400, byteSize = 823600, shared = Some ''a.bin''\<rparr>],
      openfile = None, readyFiles = None\<rparr>"

definition discB :: cdinfos where
  "discB =
     \<lparr>CD_ARTIST = [], CD_TITLE = ''b'', CD_SIZE = 1000000, CD_FILE = ''b'',
      FILE_LOADED = Some ''/cd/b.cue'', FILE_DIR = Some ''/cd'',
      tracks =
        [\<lparr>tfile = Some ''a.bin'', ttype = ''MODE1/2352'', no = 1, title = None, artist = None,
          pregap = None, indexes = [new_cuetime 1 0 0 0],
          byteStart = 0, byteSize = 352800, shared = None\<rparr>,
         \<lparr>tfile = None, ttype = ''AUDIO'', no = 2, title = None, artist = None,
          pregap = None, indexes = [new_cuetime 1 0 2 0],
          byteStart = 352800, byteSize = - 176400, shared = Some ''a.bin''\<rparr>,
         \<lparr>tfile = None, ttype = ''AUDIO'', no = 3, title = None, artist = None,
          pregap = None, indexes = [new_cuetime 1 0 1 0],
          byteStart = 176400, byteSize = 823600, shared = Some ''a.bin''\<rparr>],
      openfile = None, readyFiles = None\<rparr>"

definition parsedC :: cdinfos where
  "parsedC =
     new_cdinfos\<lparr>tracks :=
        [\<lparr>tfile = Some ''a.bin'', ttype = ''AUDIO'', no = 1, title = None, artist = None,
          pregap = None, indexes = [new_cuetime 1 0 99 99],
          byteStart = 0, byteSize = 0, shared = None\<rparr>]\<rparr>"

section \<open>Notions used in the statements\<close>

text \<open>
  The field invariant of a time code as the data model words it, and the bound the
  parser's patterns do enforce: each field is a capture of one or two digits.
\<close>

definition validTime :: "cuetime \<Rightarrow> bool" where
  "validTime t = (seconds t < 60 \<and> frames t < 75)"

definition boundedTime :: "cuetime \<Rightarrow> bool" where
  "boundedTime t = (0 \<le> minutes t \<and> minutes t \<le> 99 \<and> 0 \<le> seconds t \<and> seconds t \<le> 99
                    \<and> 0 \<le> frames t \<and> frames t \<le> 99)"

definition trackBounded :: "cdtrack \<Rightarrow> bool" where
  "trackBounded tr = (list_all boundedTime (indexes tr)
                     \<and> (case pregap tr of None \<Rightarrow> True | Some p \<Rightarrow> boundedTime p))"

definition allTimesBounded :: "cdinfos \<Rightarrow> bool" where
  "allTimesBounded st = list_all trackBounded (tracks st)"

text \<open>A capture of a quantified class has a length the quantifier allows.\<close>

definition capOk :: "atom \<Rightarrow> string \<Rightarrow> bool" where
  "capOk a c = (lo a \<le> length c \<and> (case hi a of None \<Rightarrow> True | Some h \<Rightarrow> length c \<le> h))"

text \<open>The object a method leaves behind, whether it returned or threw.\<close>

definition stateAfter :: "('e \<times> 's) + 's \<Rightarrow> 's" where
  "stateAfter r = (case r of Inl (e, s) \<Rightarrow> s | Inr s \<Rightarrow> s)"

text \<open>A disc whose tracks all have titles, one of them a performer.\<close>

definition discT :: cdinfos where
  "discT =
     new_cdinfos\<lparr>CD_TITLE := ''Quake'', tracks :=
        [new_cdtrack\<lparr>no := 1, ttype := ''AUDIO'', title := Some ''Intro'',
                     artist := Some ''NIN'', indexes := [new_cuetime 1 0 0 0]\<rparr>,
         new_cdtrack\<lparr>no := 2, ttype := ''AUDIO'', title := Some ''Main'',
                     indexes := [new_cuetime 1 0 0 0]\<rparr>]\<rparr>"

text \<open>The sheet regenerated from \<open>discA\<close> with the audio extension \<open>.ogg\<close>.\<close>

definition cueA :: "string list" where
  "cueA =
     [TAB @ ''TITLE '' @ QUOTE @ ''a'' @ QUOTE,
      [],
      TAB @ ''FILE '' @ QUOTE @ ''a - Track 01.bin'' @ QUOTE @ '' BINARY'',
      TAB @ TAB @ ''TRACK 01 MODE1/2352'',
      TAB @ TAB @ ''INDEX 01 00:00:00'',
      TAB @ ''FILE '' @ QUOTE @ ''a - Track 02.ogg'' @ QUOTE @ '' OGG'',
      TAB @ TAB @ ''TRACK 02 AUDIO'',
      TAB @ TAB @ ''INDEX 00 00:00:00'',
      TAB @ TAB @ ''INDEX 01 00:01:00'']"

text \<open>
  The owner of a track is the nearest track at or before it that declares a file;
  \<open>ownerType ty trs\<close> is the type of the last track of \<open>trs\<close> that declares one (\<open>ty\<close>
  when there is none). A list of tracks is contiguous from \<open>b\<close> to \<open>e\<close> when the first
  starts at \<open>b\<close>, each next one starts where the one before ends, and the last ends at
  \<open>e\<close>. \<open>byteRange\<close> is the half-open range of bytes of a track.
\<close>

fun ownerType :: "string option \<Rightarrow> cdtrack list \<Rightarrow> string option" where
  "ownerType ty [] = ty"
| "ownerType ty (t # ts) = ownerType (if truthy (tfile t) then Some (ttype t) else ty) ts"

fun contiguous :: "int \<Rightarrow> cdtrack list \<Rightarrow> int \<Rightarrow> bool" where
  "contiguous b [] e = (b = e)"
| "contiguous b (t # ts) e = (byteStart t = b \<and> contiguous (b + byteSize t) ts e)"

definition byteRange :: "cdtrack \<Rightarrow> int set" where
  "byteRange t = {byteStart t ..< byteStart t + byteSize t}"

text \<open>
  How the parser reads a line of the sheet: \<open>loadCue\<close> trims it and the line parser
  tests the prefixes of its upper-cased copy. A line that begins with \<open>FILE\<close>, \<open>TRACK\<close>
  or \<open>INDEX\<close> begins with none of the prefixes tested earlier, so it reaches that branch.
  The number and the type a line declares are the captures of the branch's own pattern.
  The six ways in which a sheet is malformed follow, each as a shape of the list of lines.
\<close>

definition lineUp :: "string \<Rightarrow> string" where
  "lineUp x = toUpperCase (trim x)"

definition isFILE :: "string \<Rightarrow> bool" where
  "isFILE x = startsWith (lineUp x) ''FILE''"

definition isTRACK :: "string \<Rightarrow> bool" where
  "isTRACK x = startsWith (lineUp x) ''TRACK''"

definition isINDEX :: "string \<Rightarrow> bool" where
  "isINDEX x = startsWith (lineUp x) ''INDEX''"

definition trackNo :: "string \<Rightarrow> nat option" where
  "trackNo x = (if isTRACK x then
                  (case matchHere re_TRACK (lineUp x) of
                     Some ([r1, r2], _) \<Rightarrow> Some (parseInt r1) | _ \<Rightarrow> None)
                else None)"

definition trackType :: "string \<Rightarrow> string option" where
  "trackType x = (if isTRACK x then
                    (case matchHere re_TRACK (lineUp x) of
                       Some ([r1, r2], _) \<Rightarrow> Some r2 | _ \<Rightarrow> None)
                  else None)"

definition indexNo :: "string \<Rightarrow> nat option" where
  "indexNo x = (if isINDEX x then
                  (case matchHere re_INDEX (lineUp x) of
                     Some ([r1, r2, r3, r4], _) \<Rightarrow> Some (parseInt r1) | _ \<Rightarrow> None)
                else None)"

definition fileType :: "string \<Rightarrow> string option" where
  "fileType x = (if isFILE x then
                   (case matchHere re_FILE (trim x) of
                      Some ([r1, r2], _) \<Rightarrow> Some r2 | _ \<Rightarrow> None)
                 else None)"

definition trackBeforeFile :: "string list \<Rightarrow> bool" where
  "trackBeforeFile ls =
     (\<exists>pre x post. ls = pre @ x # post \<and> isTRACK x \<and> (\<forall>y\<in>set pre. \<not> isFILE y))"

definition duplicateTrack :: "string list \<Rightarrow> bool" where
  "duplicateTrack ls =
     (\<exists>a x b y c n. ls = a @ x # b @ y # c \<and> trackNo x = Some n \<and> trackNo y = Some n)"

definition duplicateIndex :: "string list \<Rightarrow> bool" where
  "duplicateIndex ls =
     (\<exists>a x b y c n. ls = a @ x # b @ y # c \<and> indexNo x = Some n \<and> indexNo y = Some n
        \<and> (\<forall>z\<in>set b. \<not> isTRACK z))"

definition trackWithoutIndex1 :: "string list \<Rightarrow> bool" where
  "trackWithoutIndex1 ls =
     (\<exists>a x b c. ls = a @ x # b @ c \<and> isTRACK x \<and> (\<forall>z\<in>set b. indexNo z \<noteq> Some 1)
        \<and> (c = [] \<or> (\<exists>y c'. c = y # c' \<and> (isTRACK y \<or> isFILE y))))"

definition badFileType :: "string list \<Rightarrow> bool" where
  "badFileType ls = (\<exists>x\<in>set ls. \<exists>ty. fileType x = Some ty \<and> ty \<notin> set SUPPORTED_TRACK_FILES)"

definition badTrackType :: "string list \<Rightarrow> bool" where
  "badTrackType ls = (\<exists>x\<in>set ls. \<exists>ty. trackType x = Some ty \<and> sectorsByType ty = None)"

text \<open>One sheet for each of the six shapes, and the file system that serves it.\<close>

definition envWith :: "string list \<Rightarrow> env" where
  "envWith ls = exampleEnv\<lparr>getFileLines := (\<lambda>p. Some ls)\<rparr>"

definition fileLine :: string where
  "fileLine = ''FILE '' @ QUOTE @ ''a.bin'' @ QUOTE @ '' BINARY''"

definition bad1 :: "string list" where
  "bad1 = [''TRACK 01 AUDIO'', ''  INDEX 01 00:00:00'']"

definition bad2 :: "string list" where
  "bad2 = [fileLine, ''TRACK 01 AUDIO'', ''  INDEX 01 00:00:00'',
           ''TRACK 01 AUDIO'', ''  INDEX 01 00:02:00'']"

definition bad3 :: "string list" where
  "bad3 = [fileLine, ''TRACK 01 AUDIO'', ''  INDEX 01 00:00:00'', ''  INDEX 01 00:02:00'']"

definition bad4 :: "string list" where
  "bad4 = [fileLine, ''TRACK 01 AUDIO'', ''  INDEX 00 00:00:00'']"

definition bad5 :: "string list" where
  "bad5 = [''FILE '' @ QUOTE @ ''a.mp3'' @ QUOTE @ '' MP3'', ''TRACK 01 AUDIO'',
           ''  INDEX 01 00:00:00'']"

definition bad6 :: "string list" where
  "bad6 = [fileLine, ''TRACK 01 MODE3/2352'', ''  INDEX 01 00:00:00'']"

section \<open>Theorems\<close>

subsection \<open>Running the model on concrete input\<close>

lemmas re_defs = re_TITLE_def re_unquote_def re_FILE_def re_TRACK_def re_INDEX_def
  re_PREGAP_def re_TAG_def oneOrMore_def zeroOrMore_def oneOrTwo_def lit_def cap_def lazy_def
  counts_def isWord_def isSpace_def isDigit_def isLineTerminator_def

lemmas str_defs = toUpperCase_def toLowerCase_def lowerChar_def upperChar_def startsWith_def
  trim_def parseInt_def digitVal_def QUOTE_def TAB_def

lemmas parse_defs = cueParser_def parseTITLE_def parsePERFORMER_def parseFILE_def
  parseTRACK_def parseINDEX_def parsePREGAP_def opentrack_def updOpen_def validCheckOpen_def
  validCheck_def indexExists_def unquote_def new_cdtrack_def new_cuetime_def
  SUPPORTED_TRACK_FILES_def sectorsByType_def new_cdinfos_def

lemmas load_defs = loadCue_def ownerStep_def sizeStep_def truthy_def toFrames_def

lemma load_sheetA: "loadCue exampleEnv new_cdinfos ''a.cue'' = Inr discA"
  by (simp add: exampleEnv_def sheetA_def discA_def re_defs str_defs parse_defs load_defs)

lemma load_sheetB: "loadCue exampleEnv new_cdinfos ''b.cue'' = Inr discB"
  by (simp add: exampleEnv_def sheetB_def discB_def re_defs str_defs parse_defs load_defs)

subsection \<open>The time code\<close>

lemma js_rem_nonneg: "0 \<le> a \<Longrightarrow> js_rem a b = a mod \<bar>b\<bar>"
  by (cases "a = 0") (simp_all add: js_rem_def)

lemma toFrames_fromFrames:
  "0 \<le> f \<Longrightarrow> toFrames (fromFrames t f) = f"
proof -
  assume nn: "0 \<le> f"
  have m: "f mod 4500 mod 75 = f mod 75"
    by (rule mod_mod_cancel) simp
  have a: "(f mod 4500) div 75 * 75 + f mod 75 = f mod 4500"
    using div_mult_mod_eq [of "f mod 4500" 75] m by simp
  have b: "f div 4500 * 4500 + f mod 4500 = f"
    by simp
  have "toFrames (fromFrames t f) = (f mod 4500) div 75 * 75 + f div 4500 * 4500 + f mod 75"
    using nn by (simp add: toFrames_def fromFrames_def js_rem_nonneg)
  also have "\<dots> = f"
    using a b by linarith
  finally show ?thesis .
qed

text \<open>
  C3. For every non-negative frame count \<open>f\<close>, writing \<open>f\<close> into a time code with
  \<open>fromFrames\<close> and reading it back with \<open>toFrames\<close> gives \<open>f\<close> again, whatever the time
  code held before.
\<close>

theorem fromFrames_toFrames_roundtrip:
  "0 \<le> f \<Longrightarrow> toFrames (fromFrames t f) = f"
  by (rule toFrames_fromFrames)

theorem fromFrames_toFrames_roundtrip_witness:
  "(0::int) \<le> 9001 \<and> toFrames (fromFrames (new_cuetime 1 0 0 0) 9001) = 9001"
  using fromFrames_toFrames_roundtrip [of 9001 "new_cuetime 1 0 0 0"] by simp

subsection \<open>Unknown keywords\<close>

text \<open>
  C10. A line whose upper-cased form begins with none of the prefixes the parser tests
  (\<open>REM\<close>, \<open>;\<close>, \<open>TITLE\<close>, \<open>PERFORMER\<close>, \<open>FILE\<close>, \<open>TRACK\<close>, \<open>INDEX\<close>, \<open>PREGAP\<close>) is
  accepted without an error and leaves the whole state of the object as it was.
\<close>

theorem cueParser_ignores_unknown_keyword:
  assumes "\<not> startsWith (toUpperCase line) ''REM''"
    and "\<not> startsWith (toUpperCase line) '';''"
    and "\<not> startsWith (toUpperCase line) ''TITLE''"
    and "\<not> startsWith (toUpperCase line) ''PERFORMER''"
    and "\<not> startsWith (toUpperCase line) ''FILE''"
    and "\<not> startsWith (toUpperCase line) ''TRACK''"
    and "\<not> startsWith (toUpperCase line) ''INDEX''"
    and "\<not> startsWith (toUpperCase line) ''PREGAP''"
  shows "cueParser st line = Inr st"
  using assms by (simp add: cueParser_def)

theorem cueParser_ignores_unknown_keyword_witness:
  "cueParser new_cdinfos ''CATALOG 0000000000000'' = Inr new_cdinfos"
  by (rule cueParser_ignores_unknown_keyword) (simp_all add: str_defs)

subsection \<open>Loading is one-shot\<close>

lemma layout_length:
  "layout E dir ot os sz trs = Inr (trs', sz') \<Longrightarrow> length trs' = length trs"
proof (induction E dir ot os sz trs arbitrary: trs' sz' rule: layout.induct)
  case (1 E dir ot os sz)
  then show ?case by simp
next
  case (2 E dir ot os sz tr rest)
  from "2.prems" obtain tr1 ot1 os1 sz1
    where o: "ownerStep E dir ot os sz tr = Inr (tr1, ot1, os1, sz1)"
    by (auto split: sum.splits)
  from "2.prems" o obtain tr2 rest2 where s: "sizeStep ot1 os1 tr1 rest = Inr (tr2, rest2)"
    by (auto split: sum.splits)
  from "2.prems" o s obtain r
    where l: "layout E dir ot1 os1 sz1 rest2 = Inr (r, sz')" and t: "trs' = tr2 # r"
    by (auto split: sum.splits)
  have "length rest2 = length rest"
    using s by (auto simp: sizeStep_def split: list.splits if_splits option.splits)
  moreover have "length r = length rest2"
    using "2.IH" o s l by simp
  ultimately show ?case using t by simp
qed

lemma loadCue_tracks_nonempty:
  "loadCue E st input = Inr st' \<Longrightarrow> tracks st' \<noteq> []"
  by (auto simp: loadCue_def Let_def
      split: if_splits option.splits sum.splits prod.splits dest!: layout_length)

text \<open>
  C9. Once a load has succeeded on an object, every further call of \<open>loadCue\<close> on it,
  whatever the sheet and the file system, ends in the error \<open>LoadingAgain\<close>, and the
  object it leaves is the loaded one, unchanged.
\<close>

theorem loadCue_again_rejected:
  "loadCue E st input = Inr st' \<Longrightarrow> loadCue E' st' input' = Inl (LoadingAgain, st')"
  using loadCue_tracks_nonempty [of E st input st'] by (simp add: loadCue_def)

theorem loadCue_again_rejected_witness:
  "loadCue exampleEnv new_cdinfos ''a.cue'' = Inr discA
   \<and> loadCue exampleEnv discA ''b.cue'' = Inl (LoadingAgain, discA)"
  using loadCue_again_rejected [OF load_sheetA, of exampleEnv "''b.cue''"] load_sheetA
  by simp

subsection \<open>Time codes built by the parser\<close>

lemma parse_sheetC: "parseLines new_cdinfos 0 sheetC = Inr parsedC"
  by (simp add: sheetC_def parsedC_def re_defs str_defs parse_defs)

lemma firstSome_Some: "firstSome f xs = Some y \<Longrightarrow> \<exists>x\<in>set xs. f x = Some y"
  by (induction xs) (auto split: option.splits)

lemma counts_bounds:
  assumes "k \<in> set (counts a s)"
  shows "lo a \<le> k" and "k \<le> length s" and "\<And>h. hi a = Some h \<Longrightarrow> k \<le> h"
proof -
  let ?avail = "length (takeWhile (inCls (cl a)) s)"
  have av: "?avail \<le> length s" by (rule length_takeWhile_le)
  from assms show "lo a \<le> k"
    by (auto simp: counts_def Let_def split: if_splits option.splits)
  from assms av show "k \<le> length s"
    by (auto simp: counts_def Let_def split: if_splits option.splits)
  fix h assume "hi a = Some h"
  with assms show "k \<le> h"
    by (auto simp: counts_def Let_def split: if_splits)
qed

lemma matchHere_captures:
  "matchHere re s = Some (caps, rest) \<Longrightarrow> list_all2 capOk (filter captured re) caps"
proof (induction re arbitrary: s caps rest)
  case Nil
  then show ?case by simp
next
  case (Cons a as)
  from Cons.prems obtain k where k: "k \<in> set (counts a s)"
    and m: "(case matchHere as (drop k s) of None \<Rightarrow> None
             | Some (caps', rest') \<Rightarrow> Some (if captured a then take k s # caps' else caps', rest'))
            = Some (caps, rest)"
    by (auto dest!: firstSome_Some)
  from m obtain caps' where m': "matchHere as (drop k s) = Some (caps', rest)"
    and c: "caps = (if captured a then take k s # caps' else caps')"
    by (auto split: option.splits)
  have ih: "list_all2 capOk (filter captured as) caps'"
    using Cons.IH m' by blast
  have "capOk a (take k s)"
    using counts_bounds [OF k] by (auto simp: capOk_def split: option.splits)
  with ih c show ?case by simp
qed

lemma searchRe_matchHere: "searchRe re s = Some r \<Longrightarrow> \<exists>s'. matchHere re s' = Some r"
  by (induction s) (auto split: option.splits)

lemma digitVal_le: "digitVal c \<le> 9"
proof -
  have "\<And>d. map_of (zip ''0123456789'' [0, 1, 2, 3, 4, 5, 6, 7, 8, 9::nat]) c = Some d \<Longrightarrow> d \<le> 9"
    by (auto split: if_splits)
  then show ?thesis by (auto simp: digitVal_def split: option.splits)
qed

lemma parseInt_two_digits: "length s \<le> 2 \<Longrightarrow> parseInt s \<le> 99"
proof -
  assume "length s \<le> 2"
  then consider "s = []" | a where "s = [a]" | a b where "s = [a, b]"
    by (cases s; cases "tl s"; cases "tl (tl s)") auto
  then show ?thesis
  proof cases
    case 1 then show ?thesis by (simp add: parseInt_def)
  next
    case 2 then show ?thesis using digitVal_le [of a] by (simp add: parseInt_def)
  next
    case 3 then show ?thesis using digitVal_le [of a] digitVal_le [of b] by (simp add: parseInt_def)
  qed
qed

lemma capOk_upto2: "capOk (cap (oneOrTwo c)) r \<Longrightarrow> length r \<le> 2"
  by (simp add: capOk_def cap_def oneOrTwo_def)

lemma re_INDEX_times:
  assumes "matchHere re_INDEX s = Some ([r1, r2, r3, r4], rest)"
  shows "boundedTime (new_cuetime n (int (parseInt r2)) (int (parseInt r3)) (int (parseInt r4)))"
proof -
  have "list_all2 capOk (filter captured re_INDEX) [r1, r2, r3, r4]"
    using matchHere_captures [OF assms] .
  then have "length r2 \<le> 2" "length r3 \<le> 2" "length r4 \<le> 2"
    by (auto simp: re_INDEX_def cap_def oneOrMore_def oneOrTwo_def lit_def capOk_def)
  then show ?thesis
    using parseInt_two_digits by (simp add: boundedTime_def new_cuetime_def)
qed

lemma re_PREGAP_times:
  assumes "searchRe re_PREGAP s = Some ([r1, r2, r3], rest)"
  shows "boundedTime (new_cuetime n (int (parseInt r1)) (int (parseInt r2)) (int (parseInt r3)))"
proof -
  from assms obtain s' where "matchHere re_PREGAP s' = Some ([r1, r2, r3], rest)"
    by (blast dest: searchRe_matchHere)
  then have "list_all2 capOk (filter captured re_PREGAP) [r1, r2, r3]"
    by (rule matchHere_captures)
  then have "length r1 \<le> 2" "length r2 \<le> 2" "length r3 \<le> 2"
    by (auto simp: re_PREGAP_def cap_def oneOrMore_def oneOrTwo_def lit_def capOk_def)
  then show ?thesis
    using parseInt_two_digits by (simp add: boundedTime_def new_cuetime_def)
qed

lemma opentrack_Some: "opentrack st = Some ot \<Longrightarrow> tracks st \<noteq> [] \<and> ot = last (tracks st)"
  by (auto simp: opentrack_def split: if_splits)

lemma opentrack_None: "opentrack st = None \<longleftrightarrow> tracks st = []"
  by (auto simp: opentrack_def)

lemma updOpen_bounded:
  assumes "tracks st \<noteq> []" and "allTimesBounded st"
    and "trackBounded (last (tracks st)) \<Longrightarrow> trackBounded (f (last (tracks st)))"
  shows "allTimesBounded (updOpen f st)"
proof -
  have "\<forall>t\<in>set (tracks st). trackBounded t"
    using assms(2) by (simp add: allTimesBounded_def list_all_iff)
  moreover have "last (tracks st) \<in> set (tracks st)"
    using assms(1) by simp
  moreover have "set (butlast (tracks st)) \<subseteq> set (tracks st)"
    by (auto dest: in_set_butlastD)
  ultimately show ?thesis
    using assms(3) by (auto simp: allTimesBounded_def updOpen_def list_all_iff)
qed

lemma parseTITLE_bounded:
  assumes "parseTITLE st u = Inr st'" and "allTimesBounded st"
  shows "allTimesBounded st'"
proof (cases "tracks st = []")
  case True
  with assms show ?thesis
    by (auto simp: parseTITLE_def opentrack_None allTimesBounded_def
        split: option.splits list.splits)
next
  case False
  with assms obtain r where "st' = updOpen (\<lambda>tr. tr\<lparr>title := Some r\<rparr>) st"
    by (auto simp: parseTITLE_def opentrack_None split: option.splits list.splits)
  then show ?thesis
    using False assms(2) by (auto intro!: updOpen_bounded simp: trackBounded_def)
qed

lemma parsePERFORMER_bounded:
  assumes "parsePERFORMER st u = Inr st'" and "allTimesBounded st"
  shows "allTimesBounded st'"
proof (cases "tracks st = []")
  case True
  with assms show ?thesis
    by (auto simp: parsePERFORMER_def opentrack_None allTimesBounded_def
        split: option.splits list.splits)
next
  case False
  with assms obtain r where "st' = updOpen (\<lambda>tr. tr\<lparr>artist := Some r\<rparr>) st"
    by (auto simp: parsePERFORMER_def opentrack_None split: option.splits list.splits)
  then show ?thesis
    using False assms(2) by (auto intro!: updOpen_bounded simp: trackBounded_def)
qed

lemma parseFILE_bounded:
  "parseFILE st u = Inr st' \<Longrightarrow> allTimesBounded st \<Longrightarrow> allTimesBounded st'"
  by (auto simp: parseFILE_def allTimesBounded_def
      split: option.splits list.splits if_splits sum.splits)

lemma parseTRACK_bounded:
  "parseTRACK st u = Inr st' \<Longrightarrow> allTimesBounded st \<Longrightarrow> allTimesBounded st'"
  by (auto simp: parseTRACK_def allTimesBounded_def trackBounded_def new_cdtrack_def
      split: option.splits list.splits if_splits sum.splits)

lemma parseINDEX_bounded:
  assumes "parseINDEX st u = Inr st'" and "allTimesBounded st"
  shows "allTimesBounded st'"
proof -
  from assms(1) obtain ot r1 r2 r3 r4 rest where ot: "opentrack st = Some ot"
    and m: "matchHere re_INDEX u = Some ([r1, r2, r3, r4], rest)"
    and st': "st' = updOpen (\<lambda>tr. tr\<lparr>indexes := indexes tr @
               [new_cuetime (parseInt r1) (int (parseInt r2)) (int (parseInt r3))
                  (int (parseInt r4))]\<rparr>) st"
    by (auto simp: parseINDEX_def split: option.splits list.splits if_splits)
  have "tracks st \<noteq> []" using ot by (simp add: opentrack_Some)
  then show ?thesis
    unfolding st' using assms(2) re_INDEX_times [OF m]
    by (auto intro!: updOpen_bounded simp: trackBounded_def)
qed

lemma parsePREGAP_bounded:
  assumes "parsePREGAP st u = Inr st'" and "allTimesBounded st"
  shows "allTimesBounded st'"
proof -
  from assms(1) obtain ot r1 r2 r3 rest where ot: "opentrack st = Some ot"
    and m: "searchRe re_PREGAP u = Some ([r1, r2, r3], rest)"
    and st': "st' = updOpen (\<lambda>tr. tr\<lparr>pregap :=
               Some (new_cuetime 0 (int (parseInt r1)) (int (parseInt r2)) (int (parseInt r3)))\<rparr>) st"
    by (auto simp: parsePREGAP_def split: option.splits list.splits if_splits)
  have "tracks st \<noteq> []" using ot by (simp add: opentrack_Some)
  then show ?thesis
    unfolding st' using assms(2) re_PREGAP_times [OF m]
    by (auto intro!: updOpen_bounded simp: trackBounded_def)
qed

lemma cueParser_bounded:
  "cueParser st line = Inr st' \<Longrightarrow> allTimesBounded st \<Longrightarrow> allTimesBounded st'"
  unfolding cueParser_def Let_def
  by (auto split: if_splits
      dest: parseTITLE_bounded parsePERFORMER_bounded parseFILE_bounded parseTRACK_bounded
        parseINDEX_bounded parsePREGAP_bounded)

text \<open>
  C7, as the code has it. Every time code in the object after an accepted sheet has
  minutes, seconds and frames between 0 and 99, given that those already there had: the
  INDEX and PREGAP patterns capture one or two digits for each field and nothing
  compares them with 60 or 75.
\<close>

theorem parsed_times_bounded:
  "allTimesBounded st \<Longrightarrow> parseLines st l ls = Inr st' \<Longrightarrow> allTimesBounded st'"
proof (induction ls arbitrary: st l)
  case Nil
  then show ?case by simp
next
  case (Cons x xs)
  show ?case
  proof (cases "length (trim x) = 0")
    case True
    with Cons show ?thesis by (simp add: Let_def)
  next
    case False
    with Cons.prems(2) obtain st1 where s: "cueParser st (trim x) = Inr st1"
      and r: "parseLines st1 (l + 1) xs = Inr st'"
      by (auto simp: Let_def split: sum.splits)
    from cueParser_bounded [OF s Cons.prems(1)] r show ?thesis
      by (rule Cons.IH)
  qed
qed

theorem parsed_times_bounded_witness:
  "allTimesBounded new_cdinfos \<and> parseLines new_cdinfos 0 sheetC = Inr parsedC
   \<and> allTimesBounded parsedC"
proof -
  have a: "allTimesBounded new_cdinfos"
    by (simp add: allTimesBounded_def new_cdinfos_def)
  from parsed_times_bounded [OF a parse_sheetC] a parse_sheetC show ?thesis
    by simp
qed

text \<open>
  The claim as stated fails: the sheet \<open>c.cue\<close> is accepted, and the time code built
  from its line \<open>INDEX 01 00:99:99\<close> has 99 seconds and 99 frames.
\<close>

theorem parsed_time_invalid_counterexample:
  "parseLines new_cdinfos 0 sheetC = Inr parsedC
   \<and> indexes (last (tracks parsedC)) = [new_cuetime 1 0 99 99]
   \<and> \<not> validTime (new_cuetime 1 0 99 99)"
  using parse_sheetC by (simp add: parsedC_def validTime_def new_cuetime_def)

subsection \<open>Letter case of titles, performers and file names\<close>

text \<open>
  C6. The parser stores the file name of a FILE line as written, but takes the text of a
  TITLE or PERFORMER line from the upper-cased copy of the line: the title \<open>Quake\<close> is
  stored as \<open>QUAKE\<close>.
\<close>

theorem title_stored_uppercase:
  "cueParser new_cdinfos (''TITLE '' @ QUOTE @ ''Quake'' @ QUOTE)
     = Inr (new_cdinfos\<lparr>CD_TITLE := ''QUAKE''\<rparr>)
   \<and> cueParser new_cdinfos (''PERFORMER '' @ QUOTE @ ''id Software'' @ QUOTE)
     = Inr (new_cdinfos\<lparr>CD_ARTIST := ''ID SOFTWARE''\<rparr>)
   \<and> cueParser new_cdinfos (''FILE '' @ QUOTE @ ''Quake.bin'' @ QUOTE @ '' BINARY'')
     = Inr (new_cdinfos\<lparr>openfile := Some ''Quake.bin''\<rparr>)"
  by (simp add: re_defs str_defs parse_defs)

subsection \<open>Default output names\<close>

lemma indexOf_le: "i < length xs \<Longrightarrow> indexOf xs (xs ! i) \<le> i"
proof (rule ccontr)
  assume i: "i < length xs" and "\<not> indexOf xs (xs ! i) \<le> i"
  then have l: "i < length (takeWhile (\<lambda>y. y \<noteq> xs ! i) xs)"
    by (simp add: indexOf_def)
  then have "takeWhile (\<lambda>y. y \<noteq> xs ! i) xs ! i = xs ! i"
    by (rule takeWhile_nth)
  moreover have "takeWhile (\<lambda>y. y \<noteq> xs ! i) xs ! i \<in> set (takeWhile (\<lambda>y. y \<noteq> xs ! i) xs)"
    using l by simp
  ultimately show False
    by (auto dest: set_takeWhileD)
qed

lemma indexOf_nth: "i < length xs \<Longrightarrow> xs ! indexOf xs (xs ! i) = xs ! i"
proof -
  assume i: "i < length xs"
  let ?k = "length (takeWhile (\<lambda>y. y \<noteq> xs ! i) xs)"
  have "?k < length xs"
    using indexOf_le [OF i] i by (simp add: indexOf_def)
  then have "\<not> (xs ! ?k \<noteq> xs ! i)"
    by (rule nth_length_takeWhile)
  then show ?thesis by (simp add: indexOf_def)
qed

lemma hasDuplicates_nth: "hasDuplicates xs \<longleftrightarrow> (\<exists>i<length xs. indexOf xs (xs ! i) \<noteq> i)"
proof
  assume "hasDuplicates xs"
  then obtain p where p: "p \<in> set (zip xs [0..<length xs])"
    and ne: "indexOf xs (fst p) \<noteq> snd p"
    by (auto simp: hasDuplicates_def filter_empty_conv)
  from p have "snd p < length xs \<and> xs ! snd p = fst p"
    by (auto simp: in_set_zip)
  with ne show "\<exists>i<length xs. indexOf xs (xs ! i) \<noteq> i"
    by (intro exI [of _ "snd p"]) simp
next
  assume "\<exists>i<length xs. indexOf xs (xs ! i) \<noteq> i"
  then obtain i where i: "i < length xs" and ne: "indexOf xs (xs ! i) \<noteq> i"
    by blast
  from i have "(xs ! i, i) \<in> set (zip xs [0..<length xs])"
    by (auto simp: set_zip intro!: exI [of _ i])
  with ne have "filter (\<lambda>(it, ind). indexOf xs it \<noteq> ind) (zip xs [0..<length xs]) \<noteq> []"
    by (auto simp: filter_empty_conv)
  then show "hasDuplicates xs"
    by (simp add: hasDuplicates_def)
qed

lemma hasDuplicates_iff: "hasDuplicates xs \<longleftrightarrow> \<not> distinct xs"
proof -
  have "(\<exists>i<length xs. indexOf xs (xs ! i) \<noteq> i) \<longleftrightarrow> \<not> distinct xs"
  proof
    assume "\<exists>i<length xs. indexOf xs (xs ! i) \<noteq> i"
    then obtain i where i: "i < length xs" and ne: "indexOf xs (xs ! i) \<noteq> i" by blast
    have "indexOf xs (xs ! i) < length xs"
      using indexOf_le [OF i] i by simp
    with indexOf_nth [OF i] i ne show "\<not> distinct xs"
      by (auto simp: distinct_conv_nth)
  next
    assume "\<not> distinct xs"
    then obtain i j where ij: "i < j" "j < length xs" "xs ! i = xs ! j"
      by (auto simp: distinct_conv_nth) (metis nat_neq_iff)
    then have "indexOf xs (xs ! j) \<le> i"
      using indexOf_le [of i xs] by simp
    with ij show "\<exists>i<length xs. indexOf xs (xs ! i) \<noteq> i"
      by (intro exI [of _ j]) simp
  qed
  then show ?thesis by (simp add: hasDuplicates_nth)
qed

lemma length_filter_all: "length (filter P xs) = length xs \<longleftrightarrow> (\<forall>x\<in>set xs. P x)"
proof (induction xs)
  case Nil
  then show ?case by simp
next
  case (Cons a xs)
  have "length (filter P xs) < Suc (length xs)"
    by (simp add: le_imp_less_Suc)
  then have "length (filter P xs) \<noteq> Suc (length xs)"
    by simp
  with Cons show ?case by auto
qed

lemma template_full:
  "replaceAll re_TAG f 0 ''{no}. {ta} - {tt}'' = f [''no''] @ ''. '' @ f [''ta''] @ '' - '' @ f [''tt'']"
  by (simp add: replaceAll.simps re_TAG_def lit_def cap_def lazy_def oneOrMore_def counts_def
      isLineTerminator_def)

lemma template_cd:
  "replaceAll re_TAG f 0 ''{cdt} - Track {no}'' = f [''cdt''] @ '' - Track '' @ f [''no'']"
  by (simp add: replaceAll.simps re_TAG_def lit_def cap_def lazy_def oneOrMore_def counts_def
      isLineTerminator_def)

lemma prepareFilenames_result:
  "prepareFilenames E st template =
     (let names = map (\<lambda>tr. sanitizePath E (replaceAll re_TAG (tagValue st tr) 0
                     (if \<not> truthy template then defaultTemplate (tracks st)
                      else (case template of Some t \<Rightarrow> t | None \<Rightarrow> [])))) (tracks st)
      in if distinct names then Inr (st\<lparr>readyFiles := Some names\<rparr>)
         else Inl (DuplicateNames, st\<lparr>readyFiles := Some names\<rparr>))"
  by (simp add: prepareFilenames_def Let_def hasDuplicates_iff)

text \<open>
  C8. With no template (none passed, or the empty string): when every track has a title
  and some track has a performer, the stored names are the sanitized
  \<open>{no}. {performer} - {title}\<close> strings, a track without performer printing
  \<open>unknown artist\<close>; when some track has no title they are the sanitized
  \<open>{discTitle} - Track {no}\<close> strings. Whatever the template, two equal names among
  the sanitized ones make the method throw.
\<close>

theorem prepareFilenames_default_names:
  "(\<not> truthy template \<and> (\<forall>tr\<in>set (tracks st). title tr \<noteq> None)
      \<and> (\<exists>tr\<in>set (tracks st). artist tr \<noteq> None) \<longrightarrow>
      readyFiles (stateAfter (prepareFilenames E st template)) =
        Some (map (\<lambda>tr. sanitizePath E (noStr tr @ ''. ''
                     @ (case artist tr of None \<Rightarrow> ''unknown artist'' | Some a \<Rightarrow> a) @ '' - ''
                     @ (case title tr of None \<Rightarrow> ''untitled'' | Some t \<Rightarrow> t))) (tracks st)))
   \<and> (\<not> truthy template \<and> (\<exists>tr\<in>set (tracks st). title tr = None) \<longrightarrow>
      readyFiles (stateAfter (prepareFilenames E st template)) =
        Some (map (\<lambda>tr. sanitizePath E (CD_TITLE st @ '' - Track '' @ noStr tr)) (tracks st)))
   \<and> (\<forall>names. readyFiles (stateAfter (prepareFilenames E st template)) = Some names
        \<and> \<not> distinct names \<longrightarrow>
        prepareFilenames E st template = Inl (DuplicateNames, st\<lparr>readyFiles := Some names\<rparr>))"
proof (intro conjI impI allI)
  assume a: "\<not> truthy template \<and> (\<forall>tr\<in>set (tracks st). title tr \<noteq> None)
      \<and> (\<exists>tr\<in>set (tracks st). artist tr \<noteq> None)"
  then have "defaultTemplate (tracks st) = ''{no}. {ta} - {tt}''"
    by (auto simp: defaultTemplate_def length_filter_all filter_empty_conv)
  with a show "readyFiles (stateAfter (prepareFilenames E st template)) =
        Some (map (\<lambda>tr. sanitizePath E (noStr tr @ ''. ''
                     @ (case artist tr of None \<Rightarrow> ''unknown artist'' | Some a \<Rightarrow> a) @ '' - ''
                     @ (case title tr of None \<Rightarrow> ''untitled'' | Some t \<Rightarrow> t))) (tracks st))"
    by (simp add: prepareFilenames_result Let_def stateAfter_def template_full tagValue_def)
next
  assume a: "\<not> truthy template \<and> (\<exists>tr\<in>set (tracks st). title tr = None)"
  then have "defaultTemplate (tracks st) = ''{cdt} - Track {no}''"
    by (auto simp: defaultTemplate_def length_filter_all)
  with a show "readyFiles (stateAfter (prepareFilenames E st template)) =
        Some (map (\<lambda>tr. sanitizePath E (CD_TITLE st @ '' - Track '' @ noStr tr)) (tracks st))"
    by (simp add: prepareFilenames_result Let_def stateAfter_def template_cd tagValue_def)
next
  fix names
  assume "readyFiles (stateAfter (prepareFilenames E st template)) = Some names \<and> \<not> distinct names"
  then show "prepareFilenames E st template = Inl (DuplicateNames, st\<lparr>readyFiles := Some names\<rparr>)"
    by (auto simp: prepareFilenames_result Let_def stateAfter_def split: if_splits)
qed

theorem prepareFilenames_default_names_witness:
  "readyFiles (stateAfter (prepareFilenames exampleEnv discT None))
     = Some [''01. NIN - Intro'', ''02. unknown artist - Main'']
   \<and> readyFiles (stateAfter (prepareFilenames exampleEnv discA None))
     = Some [''a - Track 01'', ''a - Track 02'']
   \<and> prepareFilenames exampleEnv discA (Some ''track'')
     = Inl (DuplicateNames, discA\<lparr>readyFiles := Some [''track'', ''track'']\<rparr>)"
proof -
  have t: "replaceAll re_TAG f 0 ''track'' = ''track''" for f
    by (simp add: replaceAll.simps re_TAG_def lit_def cap_def lazy_def oneOrMore_def counts_def)
  have d: "readyFiles (stateAfter (prepareFilenames exampleEnv discA (Some ''track'')))
             = Some [''track'', ''track'']"
    by (simp add: prepareFilenames_result stateAfter_def discA_def exampleEnv_def truthy_def t)
  show ?thesis
    using prepareFilenames_default_names [of None discT exampleEnv]
      prepareFilenames_default_names [of None discA exampleEnv]
      prepareFilenames_default_names [of "Some ''track''" discA exampleEnv] d
    by (simp add: discT_def discA_def exampleEnv_def truthy_def new_cdinfos_def new_cdtrack_def
        noStr_def padStart2_def nat_toString.simps)
qed

subsection \<open>Index times of the regenerated sheet\<close>

lemmas fmt_defs = indexLine_def cuetime_toString_def int_toString_def nat_toString.simps
  padStart2_def noStr_def fromFrames_def js_rem_def toFrames_def new_cuetime_def isData_def

lemma build_discA:
  "buildCueFileForCBAE exampleEnv discA ''.ogg''
     = Inr (cueA, discA\<lparr>readyFiles := Some [''a - Track 01'', ''a - Track 02'']\<rparr>)"
proof -
  have n: "prepareFilenames exampleEnv discA None
             = Inr (discA\<lparr>readyFiles := Some [''a - Track 01'', ''a - Track 02'']\<rparr>)"
    by (simp add: prepareFilenames_def hasDuplicates_def indexOf_def defaultTemplate_def
        tagValue_def replaceAll.simps re_defs discA_def exampleEnv_def truthy_def
        noStr_def padStart2_def nat_toString.simps Let_def)
  have r: "readyFiles discA = None" by (simp add: discA_def)
  show ?thesis
    unfolding buildCueFileForCBAE_def r
    by (simp add: n) (simp add: discA_def cueA_def trackLines_def fmt_defs str_defs truthy_def)
qed

lemma fromFrames_fields:
  assumes "0 \<le> f"
  shows "0 \<le> minutes (fromFrames t f)"
    and "0 \<le> seconds (fromFrames t f)" and "seconds (fromFrames t f) < 60"
    and "0 \<le> frames (fromFrames t f)" and "frames (fromFrames t f) < 75"
proof -
  have "f mod 4500 < 4500" by simp
  then have "f mod 4500 div 75 < 60" by (simp add: div_less_iff_less_mult)  
  then show "seconds (fromFrames t f) < 60"
    using assms by (simp add: fromFrames_def js_rem_nonneg)
  show "0 \<le> minutes (fromFrames t f)"
    using assms by (simp add: fromFrames_def pos_imp_zdiv_nonneg_iff)
  show "0 \<le> seconds (fromFrames t f)"
    using assms by (simp add: fromFrames_def js_rem_nonneg pos_imp_zdiv_nonneg_iff)
  show "0 \<le> frames (fromFrames t f)" "frames (fromFrames t f) < 75"
    using assms by (simp_all add: fromFrames_def js_rem_nonneg)
qed

lemma trackLines_index_lines:
  assumes "trackLines aExt fn tr = Inr block"
  shows "\<exists>first others. indexes tr = first # others
           \<and> (\<forall>iit\<in>set (indexes tr). indexLine (toFrames first) iit \<in> set block)"
  using assms by (auto simp: trackLines_def split: list.splits)

lemma allTrackLines_block:
  "allTrackLines aExt rf i trs = Inr ls \<Longrightarrow> tr \<in> set trs
     \<Longrightarrow> \<exists>fn block. trackLines aExt fn tr = Inr block \<and> set block \<subseteq> set ls"
proof (induction trs arbitrary: i ls)
  case Nil
  then show ?case by simp
next
  case (Cons a trs)
  from Cons.prems(1) obtain b more_lines
    where b: "trackLines aExt (if i < length rf then rf ! i else ''undefined'') a = Inr b"
      and m: "allTrackLines aExt rf (i + 1) trs = Inr more_lines" and ls: "ls = b @ more_lines"
    by (auto split: sum.splits)
  show ?case
  proof (cases "tr = a")
    case True
    with b ls show ?thesis by auto
  next
    case False
    with Cons.prems(2) have "tr \<in> set trs" by simp
    from Cons.IH [OF m this] ls show ?thesis by auto
  qed
qed

lemma prepareFilenames_tracks:
  "prepareFilenames E st tpl = Inr st' \<Longrightarrow> tracks st' = tracks st"
  by (auto simp: prepareFilenames_def Let_def split: if_splits)

lemma buildCue_lines:
  assumes "buildCueFileForCBAE E st aExt = Inr (ls, st')"
  shows "\<exists>rf tls. allTrackLines aExt rf 0 (tracks st) = Inr tls \<and> set tls \<subseteq> set ls"
proof -
  from assms obtain st1 where
    p: "(case readyFiles st of None \<Rightarrow> prepareFilenames E st None | Some _ \<Rightarrow> Inr st) = Inr st1"
    by (auto simp: buildCueFileForCBAE_def split: sum.splits)
  then have t: "tracks st1 = tracks st"
    by (auto split: option.splits dest: prepareFilenames_tracks)
  show ?thesis
  proof (cases "allTrackLines aExt (case readyFiles st1 of Some rf \<Rightarrow> rf | None \<Rightarrow> []) 0
                  (tracks st1)")
    case (Inl e)
    with assms p show ?thesis
      by (simp add: buildCueFileForCBAE_def)
  next
    case (Inr tls)
    with assms p have "\<exists>hdr. ls = hdr @ tls"
      by (simp add: buildCueFileForCBAE_def) (metis append_Cons append_Nil append_assoc)
    then have "set tls \<subseteq> set ls" by auto
    with Inr t show ?thesis by auto
  qed
qed

text \<open>
  C5, as the code has it. For every track of the disc and every index of the track, the
  new sheet holds the line \<open>INDEX nn mm:ss:ff\<close> whose time code is \<open>fromFrames\<close> of the
  index's frame count minus the frame count of the first index the track lists
  (\<^verbatim>\<open>tr.indexes[0]\<close>), printed field by field. When that difference \<open>d\<close> is not
  negative the time code is the proper one of \<open>d\<close>: it reads back as \<open>d\<close>, with seconds
  below 60 and frames below 75. The zero point is the first listed index, which is
  INDEX 01 only for a track that lists no INDEX 00 before it.
\<close>

theorem buildCue_index_relative_to_first:
  assumes "buildCueFileForCBAE E st aExt = Inr (ls, st')"
    and "tr \<in> set (tracks st)" and "iit \<in> set (indexes tr)"
  shows "\<exists>first others. indexes tr = first # others \<and>
           (let d = toFrames iit - toFrames first;
                t = fromFrames (new_cuetime (cuetime.no iit) 0 0 0) d
            in TAB @ TAB @ ''INDEX '' @ padStart2 (nat_toString (cuetime.no iit)) @ '' ''
                 @ cuetime_toString t \<in> set ls
               \<and> (0 \<le> d \<longrightarrow> toFrames t = d \<and> 0 \<le> minutes t \<and> 0 \<le> seconds t \<and> seconds t < 60
                              \<and> 0 \<le> frames t \<and> frames t < 75))"
proof -
  from buildCue_lines [OF assms(1)] obtain rf tls
    where a: "allTrackLines aExt rf 0 (tracks st) = Inr tls" and s: "set tls \<subseteq> set ls"
    by blast
  from allTrackLines_block [OF a assms(2)] obtain fn block
    where b: "trackLines aExt fn tr = Inr block" and sb: "set block \<subseteq> set tls"
    by blast
  from trackLines_index_lines [OF b] assms(3) obtain first others
    where f: "indexes tr = first # others" and l: "indexLine (toFrames first) iit \<in> set block"
    by blast
  have n: "cuetime.no (fromFrames (new_cuetime (cuetime.no iit) 0 0 0) d) = cuetime.no iit" for d
    by (simp add: fromFrames_def new_cuetime_def)
  from l sb s have "indexLine (toFrames first) iit \<in> set ls" by blast
  then show ?thesis
    using f toFrames_fromFrames fromFrames_fields
    by (auto simp: indexLine_def Let_def n)
qed

theorem buildCue_index_relative_to_first_witness:
  "buildCueFileForCBAE exampleEnv discA ''.ogg''
     = Inr (cueA, discA\<lparr>readyFiles := Some [''a - Track 01'', ''a - Track 02'']\<rparr>)
   \<and> new_cuetime 1 0 2 0 \<in> set (indexes (last (tracks discA)))
   \<and> TAB @ TAB @ ''INDEX 01 00:01:00'' \<in> set cueA"
proof -
  have h1: "last (tracks discA) \<in> set (tracks discA)"
    by (simp add: discA_def)
  have h2: "new_cuetime 1 0 2 0 \<in> set (indexes (last (tracks discA)))"
    by (simp add: discA_def)
  have i: "indexes (last (tracks discA)) = [new_cuetime 0 0 1 0, new_cuetime 1 0 2 0]"
    by (simp add: discA_def)
  have e: "TAB @ TAB @ ''INDEX '' @ padStart2 (nat_toString (cuetime.no (new_cuetime 1 0 2 0)))
             @ '' '' @ cuetime_toString (fromFrames
                 (new_cuetime (cuetime.no (new_cuetime 1 0 2 0)) 0 0 0)
                 (toFrames (new_cuetime 1 0 2 0) - toFrames (new_cuetime 0 0 1 0)))
           = TAB @ TAB @ ''INDEX 01 00:01:00''"
    by (simp add: fmt_defs)
  from buildCue_index_relative_to_first [OF build_discA h1 h2] obtain first others
    where f: "indexes (last (tracks discA)) = first # others"
      and l: "TAB @ TAB @ ''INDEX '' @ padStart2 (nat_toString (cuetime.no (new_cuetime 1 0 2 0)))
             @ '' '' @ cuetime_toString (fromFrames
                 (new_cuetime (cuetime.no (new_cuetime 1 0 2 0)) 0 0 0)
                 (toFrames (new_cuetime 1 0 2 0) - toFrames first)) \<in> set cueA"
    unfolding Let_def by blast
  from f i have "first = new_cuetime 0 0 1 0" by simp
  with l e have "TAB @ TAB @ ''INDEX 01 00:01:00'' \<in> set cueA"
    by (simp only:)
  with build_discA h2 show ?thesis by blast
qed

text \<open>
  The claim as stated fails on \<open>discA\<close>, the disc loaded from \<open>a.cue\<close>: its second
  track lists INDEX 00 at 00:01:00 before INDEX 01 at 00:02:00. The new sheet gives
  INDEX 01 the time 00:01:00; subtracting the frame count of INDEX 01 itself, as the
  claim has it, would give 00:00:00.
\<close>

theorem buildCue_index01_not_zero_counterexample:
  "buildCueFileForCBAE exampleEnv discA ''.ogg''
     = Inr (cueA, discA\<lparr>readyFiles := Some [''a - Track 01'', ''a - Track 02'']\<rparr>)
   \<and> indexes (last (tracks discA)) = [new_cuetime 0 0 1 0, new_cuetime 1 0 2 0]
   \<and> drop 7 cueA = [TAB @ TAB @ ''INDEX 00 00:00:00'', TAB @ TAB @ ''INDEX 01 00:01:00'']
   \<and> indexLine (toFrames (new_cuetime 1 0 2 0)) (new_cuetime 1 0 2 0)
       = TAB @ TAB @ ''INDEX 01 00:00:00''"
proof -
  have i: "indexes (last (tracks discA)) = [new_cuetime 0 0 1 0, new_cuetime 1 0 2 0]"
    by (simp add: discA_def)
  have c: "drop 7 cueA = [TAB @ TAB @ ''INDEX 00 00:00:00'', TAB @ TAB @ ''INDEX 01 00:01:00'']"
    by (simp add: cueA_def)
  have l: "indexLine (toFrames (new_cuetime 1 0 2 0)) (new_cuetime 1 0 2 0)
       = TAB @ TAB @ ''INDEX 01 00:00:00''"
    by (simp add: fmt_defs)
  from build_discA i c l show ?thesis by blast
qed

subsection \<open>The byte layout of shared tracks\<close>

lemma layout_ConsE:
  assumes "layout E dir ot os sz (tr # rest) = Inr (trs', sz')"
  obtains tr1 ot1 os1 sz1 tr2 rest2 r where
    "ownerStep E dir ot os sz tr = Inr (tr1, ot1, os1, sz1)"
    "sizeStep ot1 os1 tr1 rest = Inr (tr2, rest2)"
    "layout E dir ot1 os1 sz1 rest2 = Inr (r, sz')"
    "trs' = tr2 # r"
  using assms by (auto split: sum.splits)

lemma ownerStep_Inr:
  assumes "ownerStep E dir ot os sz tr = Inr (tr1, ot1, os1, sz1)"
  shows "byteStart tr1 = byteStart tr" and "byteSize tr1 = byteSize tr"
    and "tfile tr1 = tfile tr" and "ttype tr1 = ttype tr" and "indexes tr1 = indexes tr"
    and "truthy (tfile tr) \<Longrightarrow> ot1 = Some tr"
    and "truthy (tfile tr) \<Longrightarrow> \<exists>f. tfile tr = Some f \<and> os1 = int (statSync_size E (path_join E dir f))"
    and "\<not> truthy (tfile tr) \<Longrightarrow> ot1 = ot \<and> os1 = os \<and> ot \<noteq> None"
  using assms
  by (auto simp: ownerStep_def Let_def split: if_splits option.splits)

lemma sizeStep_Inr:
  assumes "sizeStep ot1 os1 tr1 rest = Inr (tr2, rest2)"
  shows "byteStart tr2 = byteStart tr1"
    and "tfile tr2 = tfile tr1" and "ttype tr2 = ttype tr1" and "indexes tr2 = indexes tr1"
    and "map tfile rest2 = map tfile rest" and "map ttype rest2 = map ttype rest"
    and "map indexes rest2 = map indexes rest"
  using assms
  by (auto simp: sizeStep_def split: list.splits if_splits option.splits)

lemma sizeStep_shared:
  assumes "sizeStep ot1 os1 tr1 (x # xs) = Inr (tr2, rest2)" and "\<not> truthy (tfile x)"
  shows "\<exists>owner ss first others. ot1 = Some owner \<and> sectorsByType (ttype owner) = Some ss
           \<and> indexes x = first # others
           \<and> tr2 = tr1\<lparr>byteSize := ss * toFrames first - byteStart tr1\<rparr>
           \<and> rest2 = x\<lparr>byteStart := ss * toFrames first\<rparr> # xs"
  using assms
  by (auto simp: sizeStep_def split: list.splits if_splits option.splits)

lemma sizeStep_last:
  assumes "sizeStep ot1 os1 tr1 rest = Inr (tr2, rest2)"
    and "rest = [] \<or> truthy (tfile (hd rest))"
  shows "tr2 = tr1\<lparr>byteSize := os1 - byteStart tr1\<rparr> \<and> rest2 = rest"
  using assms
  by (auto simp: sizeStep_def split: list.splits if_splits option.splits)

lemma layout_head:
  assumes "layout E dir ot os sz (x # xs) = Inr (r, s)"
  shows "r \<noteq> [] \<and> byteStart (hd r) = byteStart x"
proof -
  from assms obtain tr1 ot1 os1 sz1 tr2 rest2 r'
    where o: "ownerStep E dir ot os sz x = Inr (tr1, ot1, os1, sz1)"
      and s: "sizeStep ot1 os1 tr1 xs = Inr (tr2, rest2)" and r: "r = tr2 # r'"
    by (rule layout_ConsE)
  from ownerStep_Inr(1) [OF o] sizeStep_Inr(1) [OF s] r show ?thesis
    by simp
qed

lemma layout_fields:
  "layout E dir ot os sz trs = Inr (trs', sz')
     \<Longrightarrow> map tfile trs' = map tfile trs \<and> map ttype trs' = map ttype trs
         \<and> map indexes trs' = map indexes trs"
proof (induction E dir ot os sz trs arbitrary: trs' sz' rule: layout.induct)
  case (1 E dir ot os sz)
  then show ?case by simp
next
  case (2 E dir ot os sz tr rest)
  from "2.prems" obtain tr1 ot1 os1 sz1 tr2 rest2 r
    where o: "ownerStep E dir ot os sz tr = Inr (tr1, ot1, os1, sz1)"
      and s: "sizeStep ot1 os1 tr1 rest = Inr (tr2, rest2)"
      and l: "layout E dir ot1 os1 sz1 rest2 = Inr (r, sz')" and t: "trs' = tr2 # r"
    by (rule layout_ConsE)
  have ih: "map tfile r = map tfile rest2 \<and> map ttype r = map ttype rest2
         \<and> map indexes r = map indexes rest2"
    using "2.IH" o s l by simp
  with ownerStep_Inr(3,4,5) [OF o] sizeStep_Inr [OF s] t show ?case
    by simp
qed

lemma ownerType_cong:
  "map tfile xs = map tfile ys \<Longrightarrow> map ttype xs = map ttype ys
     \<Longrightarrow> ownerType ty xs = ownerType ty ys"
proof (induction xs arbitrary: ys ty)
  case Nil
  then show ?case by simp
next
  case (Cons x xs)
  then obtain y ys' where "ys = y # ys'" by (cases ys) auto
  with Cons show ?case by auto
qed

lemma layout_shared:
  "layout E dir ot os sz trs = Inr (trs', sz') \<Longrightarrow> Suc i < length trs
     \<Longrightarrow> \<not> truthy (tfile (trs ! Suc i))
     \<Longrightarrow> \<exists>ty ss first others.
           ownerType (map_option ttype ot) (take (Suc i) trs) = Some ty
           \<and> sectorsByType ty = Some ss
           \<and> indexes (trs ! Suc i) = first # others
           \<and> byteStart (trs' ! Suc i) = ss * toFrames first
           \<and> byteSize (trs' ! i) = ss * toFrames first - byteStart (trs' ! i)"
proof (induction E dir ot os sz trs arbitrary: trs' sz' i rule: layout.induct)
  case (1 E dir ot os sz)
  then show ?case by simp
next
  case (2 E dir ot os sz tr rest)
  from "2.prems"(1) obtain tr1 ot1 os1 sz1 tr2 rest2 r
    where o: "ownerStep E dir ot os sz tr = Inr (tr1, ot1, os1, sz1)"
      and s: "sizeStep ot1 os1 tr1 rest = Inr (tr2, rest2)"
      and l: "layout E dir ot1 os1 sz1 rest2 = Inr (r, sz')" and t: "trs' = tr2 # r"
    by (rule layout_ConsE)
  have ot1: "map_option ttype ot1 = (if truthy (tfile tr) then Some (ttype tr) else map_option ttype ot)"
    using ownerStep_Inr(6,8) [OF o] by (cases "truthy (tfile tr)") auto
  show ?case
  proof (cases i)
    case 0
    with "2.prems"(2,3) obtain x xs where rest: "rest = x # xs" and nx: "\<not> truthy (tfile x)"
      by (cases rest) auto
    from sizeStep_shared [OF s [unfolded rest] nx] obtain owner ss first others
      where own: "ot1 = Some owner" and ss: "sectorsByType (ttype owner) = Some ss"
        and ix: "indexes x = first # others"
        and tr2: "tr2 = tr1\<lparr>byteSize := ss * toFrames first - byteStart tr1\<rparr>"
        and rest2: "rest2 = x\<lparr>byteStart := ss * toFrames first\<rparr> # xs"
      by blast
    from layout_head [OF l [unfolded rest2]] have r: "r \<noteq> []" "byteStart (hd r) = ss * toFrames first"
      by simp_all
    then have r0: "byteStart (r ! 0) = ss * toFrames first"
      by (cases r) auto
    from own ot1 have "ownerType (map_option ttype ot) (take (Suc 0) (tr # rest)) = Some (ttype owner)"
      by (auto split: if_splits)
    with ss ix r0 tr2 t 0 rest show ?thesis
      by simp
  next
    case (Suc j)
    have f: "map tfile rest2 = map tfile rest" "map ttype rest2 = map ttype rest"
      "map indexes rest2 = map indexes rest"
      using sizeStep_Inr [OF s] by simp_all
    have len: "length rest2 = length rest"
      using f(1) by (metis length_map)
    from "2.prems"(2) Suc have j: "Suc j < length rest2"
      using len by simp
    have nth: "tfile (rest2 ! Suc j) = tfile (rest ! Suc j)" "indexes (rest2 ! Suc j) = indexes (rest ! Suc j)"
      using f j len by (metis nth_map)+
    from "2.prems"(3) Suc nth have n: "\<not> truthy (tfile (rest2 ! Suc j))"
      by simp
    from "2.IH" [OF o refl refl refl s refl l j n] obtain ty ss first others
      where a: "ownerType (map_option ttype ot1) (take (Suc j) rest2) = Some ty"
        and b: "sectorsByType ty = Some ss" and c: "indexes (rest2 ! Suc j) = first # others"
        and d: "byteStart (r ! Suc j) = ss * toFrames first"
        and e: "byteSize (r ! j) = ss * toFrames first - byteStart (r ! j)"
      by auto
    have "ownerType (map_option ttype ot1) (take (Suc j) rest2)
            = ownerType (map_option ttype ot1) (take (Suc j) rest)"
      by (rule ownerType_cong) (simp_all add: f take_map [symmetric])
    with a ot1 have "ownerType (map_option ttype ot) (take (Suc i) (tr # rest)) = Some ty"
      using Suc by simp
    with b c d e nth t Suc show ?thesis
      by simp
  qed
qed

lemma loadCue_InrE:
  assumes "loadCue E st input = Inr st'"
  obtains ls st1 dir start where
    "tracks st = []"
    "getFileLines E (path_normalize E input) = Some ls"
    "parseLines st 0 ls = Inr st1"
    "tracks st1 \<noteq> []"
    "validCheckOpen st1 = Inr ()"
    "FILE_DIR st' = Some dir"
    "layout E dir None 0 start (tracks st1) = Inr (tracks st', CD_SIZE st')"
proof -
  from assms have t: "tracks st = []"
    by (auto simp: loadCue_def split: if_splits)
  from assms t obtain ls where g: "getFileLines E (path_normalize E input) = Some ls"
    by (auto simp: loadCue_def Let_def split: if_splits option.splits)
  from assms t g obtain st1 where p: "parseLines st 0 ls = Inr st1"
    by (auto simp: loadCue_def Let_def split: if_splits sum.splits)
  from assms t g p have ne: "tracks st1 \<noteq> []"
    by (auto simp: loadCue_def Let_def split: if_splits)
  from assms t g p ne have v: "validCheckOpen st1 = Inr ()"
    by (auto simp: loadCue_def Let_def validCheckOpen_def opentrack_def split: if_splits sum.splits)
  from assms t g p ne v
  have "\<exists>start. FILE_DIR st' = Some (path_dirname E (path_resolve E (path_normalize E input)))
         \<and> layout E (path_dirname E (path_resolve E (path_normalize E input))) None 0 start (tracks st1)
            = Inr (tracks st', CD_SIZE st')"
    by (auto simp: loadCue_def Let_def validCheckOpen_def opentrack_def
        split: if_splits sum.splits prod.splits)
  with t g p ne v that show thesis
    by blast
qed

text \<open>
  C1, as the code has it. After a successful load, when track \<open>i+1\<close> exists and
  declares no file, its \<open>byteStart\<close> is the sector size of its owner's type times the
  frame count of the first index it lists (\<^verbatim>\<open>tr1.indexes[0]\<close>), and the \<open>byteSize\<close> of
  track \<open>i\<close> is the \<open>byteStart\<close> of track \<open>i+1\<close> minus its own. The first listed index
  is INDEX 01 only for a track that lists no other index before it.
\<close>

theorem loadCue_shared_track_layout:
  assumes "loadCue E st input = Inr st'"
    and "Suc i < length (tracks st')"
    and "tfile (tracks st' ! Suc i) = None"
  shows "\<exists>ty ss first others.
           ownerType None (take (Suc i) (tracks st')) = Some ty
           \<and> sectorsByType ty = Some ss
           \<and> indexes (tracks st' ! Suc i) = first # others
           \<and> byteStart (tracks st' ! Suc i) = ss * toFrames first
           \<and> byteSize (tracks st' ! i) = byteStart (tracks st' ! Suc i) - byteStart (tracks st' ! i)"
proof -
  from assms(1) obtain st1 :: cdinfos and dir start
    where l: "layout E dir None 0 start (tracks st1) = Inr (tracks st', CD_SIZE st')"
    by (rule loadCue_InrE) blast
  have f: "map tfile (tracks st') = map tfile (tracks st1)"
    "map ttype (tracks st') = map ttype (tracks st1)"
    "map indexes (tracks st') = map indexes (tracks st1)"
    using layout_fields [OF l] by simp_all
  have len: "length (tracks st1) = length (tracks st')"
    using f(1) by (metis length_map)
  have nth: "tfile (tracks st1 ! Suc i) = tfile (tracks st' ! Suc i)"
    "indexes (tracks st1 ! Suc i) = indexes (tracks st' ! Suc i)"
    using f assms(2) len by (metis nth_map)+
  have i: "Suc i < length (tracks st1)"
    using assms(2) len by simp
  have n: "\<not> truthy (tfile (tracks st1 ! Suc i))"
    using nth assms(3) by (simp add: truthy_def)
  from layout_shared [OF l i n] obtain ty ss first others
    where a: "ownerType None (take (Suc i) (tracks st1)) = Some ty"
      and b: "sectorsByType ty = Some ss" and c: "indexes (tracks st1 ! Suc i) = first # others"
      and d: "byteStart (tracks st' ! Suc i) = ss * toFrames first"
      and e: "byteSize (tracks st' ! i) = ss * toFrames first - byteStart (tracks st' ! i)"
    by auto
  have "ownerType None (take (Suc i) (tracks st')) = ownerType None (take (Suc i) (tracks st1))"
    by (rule ownerType_cong) (simp_all add: f take_map [symmetric])
  with a b c d e nth show ?thesis
    by simp
qed

theorem loadCue_shared_track_layout_witness:
  "loadCue exampleEnv new_cdinfos ''a.cue'' = Inr discA
   \<and> tfile (tracks discA ! Suc 0) = None
   \<and> indexes (tracks discA ! Suc 0) = [new_cuetime 0 0 1 0, new_cuetime 1 0 2 0]
   \<and> byteStart (tracks discA ! Suc 0) = 2352 * toFrames (new_cuetime 0 0 1 0)
   \<and> byteSize (tracks discA ! 0) = byteStart (tracks discA ! Suc 0) - byteStart (tracks discA ! 0)"
proof -
  have h1: "Suc 0 < length (tracks discA)" by (simp add: discA_def)
  have h2: "tfile (tracks discA ! Suc 0) = None" by (simp add: discA_def)
  have i: "indexes (tracks discA ! Suc 0) = [new_cuetime 0 0 1 0, new_cuetime 1 0 2 0]"
    by (simp add: discA_def)
  have o: "ownerType None (take (Suc 0) (tracks discA)) = Some ''MODE1/2352''"
    by (simp add: discA_def truthy_def)
  have s: "sectorsByType ''MODE1/2352'' = Some 2352"
    by (simp add: sectorsByType_def)
  from loadCue_shared_track_layout [OF load_sheetA h1 h2] obtain ty ss first others
    where a: "ownerType None (take (Suc 0) (tracks discA)) = Some ty"
      and b: "sectorsByType ty = Some ss" and c: "indexes (tracks discA ! Suc 0) = first # others"
      and d: "byteStart (tracks discA ! Suc 0) = ss * toFrames first"
      and e: "byteSize (tracks discA ! 0) = byteStart (tracks discA ! Suc 0) - byteStart (tracks discA ! 0)"
    by blast
  from a o have "ty = ''MODE1/2352''" by simp
  with b s have "ss = 2352" by simp
  moreover from c i have "first = new_cuetime 0 0 1 0" by simp
  ultimately show ?thesis
    using load_sheetA h2 i d e by blast
qed

text \<open>
  The claim as stated fails on the sheet \<open>a.cue\<close>: its second track shares the file of
  the first (type MODE1/2352, 2352 bytes a sector) and lists INDEX 00 at 00:01:00 before
  INDEX 01 at 00:02:00. The sector size times the frame count of the index numbered 1 is
  352800; the resolver sets \<open>byteStart\<close> to 176400.
\<close>

theorem loadCue_shared_start_not_index01_counterexample:
  "loadCue exampleEnv new_cdinfos ''a.cue'' = Inr discA
   \<and> tfile (tracks discA ! 1) = None
   \<and> ownerType None (take 1 (tracks discA)) = Some ''MODE1/2352''
   \<and> sectorsByType ''MODE1/2352'' = Some 2352
   \<and> filter (\<lambda>t. cuetime.no t = 1) (indexes (tracks discA ! 1)) = [new_cuetime 1 0 2 0]
   \<and> 2352 * toFrames (new_cuetime 1 0 2 0) = 352800
   \<and> byteStart (tracks discA ! 1) = 176400"
proof -
  have "tfile (tracks discA ! 1) = None" and "byteStart (tracks discA ! 1) = 176400"
    and "ownerType None (take 1 (tracks discA)) = Some ''MODE1/2352''"
    and "filter (\<lambda>t. cuetime.no t = 1) (indexes (tracks discA ! 1)) = [new_cuetime 1 0 2 0]"
    by (simp_all add: discA_def truthy_def new_cuetime_def)
  moreover have "sectorsByType ''MODE1/2352'' = Some 2352"
    by (simp add: sectorsByType_def)
  moreover have "2352 * toFrames (new_cuetime 1 0 2 0) = 352800"
    by (simp add: toFrames_def new_cuetime_def)
  ultimately show ?thesis
    using load_sheetA by blast
qed

subsection \<open>What an accepted line does to the object\<close>

lemma parseLines_invariant:
  assumes step: "\<And>s x s'. x \<in> set ls \<Longrightarrow> I s \<Longrightarrow> cueParser s (trim x) = Inr s' \<Longrightarrow> I s'"
  shows "parseLines st l ls = Inr st' \<Longrightarrow> I st \<Longrightarrow> I st'"
  using step
proof (induction ls arbitrary: st l)
  case Nil
  then show ?case by simp
next
  case (Cons x xs)
  show ?case
  proof (cases "length (trim x) = 0")
    case True
    with Cons.prems(1) have "parseLines st (l + 1) xs = Inr st'"
      by (simp add: Let_def)
    then show ?thesis
      using Cons.prems(2,3) by (intro Cons.IH [of st "l + 1"]) auto
  next
    case False
    with Cons.prems(1) obtain st1 where s: "cueParser st (trim x) = Inr st1"
      and r: "parseLines st1 (l + 1) xs = Inr st'"
      by (auto simp: Let_def split: sum.splits)
    have "I st1"
      using Cons.prems(3) [of x st st1] Cons.prems(2) s by simp
    with r show ?thesis
      using Cons.prems(3) by (intro Cons.IH [of st1 "l + 1"]) auto
  qed
qed

lemma updOpen_all:
  assumes "tracks st \<noteq> []" and "\<forall>t\<in>set (tracks st). P t"
    and "P (last (tracks st)) \<Longrightarrow> P (f (last (tracks st)))"
  shows "\<forall>t\<in>set (tracks (updOpen f st)). P t"
proof -
  have "last (tracks st) \<in> set (tracks st)"
    using assms(1) by simp
  moreover have "set (butlast (tracks st)) \<subseteq> set (tracks st)"
    by (auto dest: in_set_butlastD)
  ultimately show ?thesis
    using assms(2,3) by (auto simp: updOpen_def)
qed

lemma parseTITLE_InrE:
  assumes "parseTITLE st u = Inr st'"
  obtains r where "tracks st = []" "st' = st\<lparr>CD_TITLE := r\<rparr>"
  | r where "tracks st \<noteq> []" "st' = updOpen (\<lambda>tr. tr\<lparr>title := Some r\<rparr>) st"
proof (cases "tracks st = []")
  case True
  with assms have "\<exists>r. st' = st\<lparr>CD_TITLE := r\<rparr>"
    by (auto simp: parseTITLE_def opentrack_None split: option.splits list.splits)
  with True that(1) show thesis by blast
next
  case False
  with assms have "\<exists>r. st' = updOpen (\<lambda>tr. tr\<lparr>title := Some r\<rparr>) st"
    by (auto simp: parseTITLE_def opentrack_None split: option.splits list.splits)
  with False that(2) show thesis by blast
qed

lemma parsePERFORMER_InrE:
  assumes "parsePERFORMER st u = Inr st'"
  obtains r where "tracks st = []" "st' = st\<lparr>CD_ARTIST := r\<rparr>"
  | r where "tracks st \<noteq> []" "st' = updOpen (\<lambda>tr. tr\<lparr>artist := Some r\<rparr>) st"
proof (cases "tracks st = []")
  case True
  with assms have "\<exists>r. st' = st\<lparr>CD_ARTIST := r\<rparr>"
    by (auto simp: parsePERFORMER_def opentrack_None split: option.splits list.splits)
  with True that(1) show thesis by blast
next
  case False
  with assms have "\<exists>r. st' = updOpen (\<lambda>tr. tr\<lparr>artist := Some r\<rparr>) st"
    by (auto simp: parsePERFORMER_def opentrack_None split: option.splits list.splits)
  with False that(2) show thesis by blast
qed

lemma parseFILE_InrE:
  assumes "parseFILE st line = Inr st'"
  obtains r1 r2 rest where "matchHere re_FILE line = Some ([r1, r2], rest)"
    "r2 \<in> set SUPPORTED_TRACK_FILES" "validCheckOpen st = Inr ()"
    "st' = st\<lparr>openfile := Some r1\<rparr>"
proof -
  from assms obtain caps rest where m: "matchHere re_FILE line = Some (caps, rest)"
    by (cases "matchHere re_FILE line") (auto simp: parseFILE_def)
  with assms obtain r1 r2 where c: "caps = [r1, r2]"
    by (auto simp: parseFILE_def split: list.splits)
  from assms m c have "r2 \<in> set SUPPORTED_TRACK_FILES" "validCheckOpen st = Inr ()"
    "st' = st\<lparr>openfile := Some r1\<rparr>"
    by (auto simp: parseFILE_def split: if_splits sum.splits)
  with m c that show thesis by blast
qed

lemma parseTRACK_InrE:
  assumes "parseTRACK st u = Inr st'"
  obtains r1 r2 rest where "matchHere re_TRACK u = Some ([r1, r2], rest)"
    "openfile st \<noteq> None \<or> tracks st \<noteq> []" "validCheckOpen st = Inr ()"
    "\<not> list_ex (\<lambda>t. cdtrack.no t = parseInt r1) (tracks st)"
    "sectorsByType r2 \<noteq> None"
    "st' = st\<lparr>tracks := tracks st @
             [new_cdtrack\<lparr>no := parseInt r1, ttype := toUpperCase r2, tfile := openfile st\<rparr>],
           openfile := None\<rparr>"
proof -
  from assms have f: "openfile st \<noteq> None \<or> tracks st \<noteq> []"
    by (auto simp: parseTRACK_def split: if_splits)
  with assms have v: "validCheckOpen st = Inr ()"
    by (auto simp: parseTRACK_def split: if_splits sum.splits)
  from assms f v obtain caps rest where m: "matchHere re_TRACK u = Some (caps, rest)"
    by (cases "matchHere re_TRACK u") (auto simp: parseTRACK_def)
  with assms f v obtain r1 r2 where c: "caps = [r1, r2]"
    by (auto simp: parseTRACK_def split: list.splits)
  from assms f v m c have "\<not> list_ex (\<lambda>t. cdtrack.no t = parseInt r1) (tracks st)"
    "sectorsByType r2 \<noteq> None"
    "st' = st\<lparr>tracks := tracks st @
             [new_cdtrack\<lparr>no := parseInt r1, ttype := toUpperCase r2, tfile := openfile st\<rparr>],
           openfile := None\<rparr>"
    by (auto simp: parseTRACK_def split: if_splits)
  with f v m c that show thesis by blast
qed

lemma parseINDEX_InrE:
  assumes "parseINDEX st u = Inr st'"
  obtains r1 r2 r3 r4 rest where "tracks st \<noteq> []"
    "matchHere re_INDEX u = Some ([r1, r2, r3, r4], rest)"
    "\<not> indexExists (last (tracks st)) (parseInt r1)"
    "st' = updOpen (\<lambda>tr. tr\<lparr>indexes := indexes tr @
             [new_cuetime (parseInt r1) (int (parseInt r2)) (int (parseInt r3))
                (int (parseInt r4))]\<rparr>) st"
proof -
  from assms have t: "tracks st \<noteq> []"
    by (auto simp: parseINDEX_def opentrack_def split: if_splits)
  then have o: "opentrack st = Some (last (tracks st))"
    by (simp add: opentrack_def)
  from assms o obtain caps rest where m: "matchHere re_INDEX u = Some (caps, rest)"
    by (cases "matchHere re_INDEX u") (auto simp: parseINDEX_def)
  with assms o obtain r1 r2 r3 r4 where c: "caps = [r1, r2, r3, r4]"
    by (auto simp: parseINDEX_def split: list.splits)
  from assms o m c have "\<not> indexExists (last (tracks st)) (parseInt r1)"
    "st' = updOpen (\<lambda>tr. tr\<lparr>indexes := indexes tr @
             [new_cuetime (parseInt r1) (int (parseInt r2)) (int (parseInt r3))
                (int (parseInt r4))]\<rparr>) st"
    by (auto simp: parseINDEX_def split: if_splits)
  with t m c that show thesis by blast
qed

lemma parsePREGAP_InrE:
  assumes "parsePREGAP st u = Inr st'"
  obtains r1 r2 r3 rest where "tracks st \<noteq> []"
    "searchRe re_PREGAP u = Some ([r1, r2, r3], rest)"
    "st' = updOpen (\<lambda>tr. tr\<lparr>pregap :=
             Some (new_cuetime 0 (int (parseInt r1)) (int (parseInt r2)) (int (parseInt r3)))\<rparr>) st"
proof -
  from assms have t: "tracks st \<noteq> []"
    by (auto simp: parsePREGAP_def opentrack_def split: if_splits)
  then have o: "opentrack st = Some (last (tracks st))"
    by (simp add: opentrack_def)
  from assms o obtain caps rest where m: "searchRe re_PREGAP u = Some (caps, rest)"
    by (cases "searchRe re_PREGAP u") (auto simp: parsePREGAP_def)
  with assms o obtain r1 r2 r3 where c: "caps = [r1, r2, r3]"
    by (auto simp: parsePREGAP_def split: list.splits)
  from assms o m c have
    "st' = updOpen (\<lambda>tr. tr\<lparr>pregap :=
             Some (new_cuetime 0 (int (parseInt r1)) (int (parseInt r2)) (int (parseInt r3)))\<rparr>) st"
    by (auto simp: parsePREGAP_def)
  with t m c that show thesis by blast
qed

lemma cueParser_InrE:
  assumes "cueParser st line = Inr st'"
  obtains (Same) "st' = st"
  | (Title) "parseTITLE st (toUpperCase line) = Inr st'"
  | (Performer) "parsePERFORMER st (toUpperCase line) = Inr st'"
  | (File) "startsWith (toUpperCase line) ''FILE''" "parseFILE st line = Inr st'"
  | (Track) "startsWith (toUpperCase line) ''TRACK''" "parseTRACK st (toUpperCase line) = Inr st'"
  | (Index) "startsWith (toUpperCase line) ''INDEX''" "parseINDEX st (toUpperCase line) = Inr st'"
  | (Pregap) "parsePREGAP st (toUpperCase line) = Inr st'"
proof -
  let ?u = "toUpperCase line"
  let ?c = "startsWith ?u ''REM'' \<or> startsWith ?u '';''"
  have 0: thesis if "?c"
    using assms that Same by (simp add: cueParser_def)
  have 1: thesis if "\<not> ?c" "startsWith ?u ''TITLE''"
    using assms that Title by (simp add: cueParser_def)
  have 2: thesis if "\<not> ?c" "\<not> startsWith ?u ''TITLE''" "startsWith ?u ''PERFORMER''"
    using assms that Performer by (simp add: cueParser_def)
  have 3: thesis if "\<not> ?c" "\<not> startsWith ?u ''TITLE''" "\<not> startsWith ?u ''PERFORMER''"
    "startsWith ?u ''FILE''"
    using assms that File by (simp add: cueParser_def)
  have 4: thesis if "\<not> ?c" "\<not> startsWith ?u ''TITLE''" "\<not> startsWith ?u ''PERFORMER''"
    "\<not> startsWith ?u ''FILE''" "startsWith ?u ''TRACK''"
    using assms that Track by (simp add: cueParser_def)
  have 5: thesis if "\<not> ?c" "\<not> startsWith ?u ''TITLE''" "\<not> startsWith ?u ''PERFORMER''"
    "\<not> startsWith ?u ''FILE''" "\<not> startsWith ?u ''TRACK''" "startsWith ?u ''INDEX''"
    using assms that Index by (simp add: cueParser_def)
  have 6: thesis if "\<not> ?c" "\<not> startsWith ?u ''TITLE''" "\<not> startsWith ?u ''PERFORMER''"
    "\<not> startsWith ?u ''FILE''" "\<not> startsWith ?u ''TRACK''" "\<not> startsWith ?u ''INDEX''"
    "startsWith ?u ''PREGAP''"
    using assms that Pregap by (simp add: cueParser_def)
  have 7: thesis if "\<not> ?c" "\<not> startsWith ?u ''TITLE''" "\<not> startsWith ?u ''PERFORMER''"
    "\<not> startsWith ?u ''FILE''" "\<not> startsWith ?u ''TRACK''" "\<not> startsWith ?u ''INDEX''"
    "\<not> startsWith ?u ''PREGAP''"
    using assms that Same by (simp add: cueParser_def)
  from 0 1 2 3 4 5 6 7 show thesis
    by blast
qed

subsection \<open>The byte layout of a single-file disc\<close>

lemma updOpen_byteStart_zero:
  assumes "tracks st \<noteq> []" and "\<forall>t\<in>set (tracks st). byteStart t = 0"
    and "byteStart (f (last (tracks st))) = byteStart (last (tracks st))"
  shows "\<forall>t\<in>set (tracks (updOpen f st)). byteStart t = 0"
  using assms(1,2)
proof (rule updOpen_all)
  assume "byteStart (last (tracks st)) = 0"
  with assms(3) show "byteStart (f (last (tracks st))) = 0" by simp
qed

lemma cueParser_byteStart_zero:
  assumes "cueParser st line = Inr st'" and z: "\<forall>t\<in>set (tracks st). byteStart t = 0"
  shows "\<forall>t\<in>set (tracks st'). byteStart t = 0"
  using assms(1)
proof (cases rule: cueParser_InrE)
  case Same
  with z show ?thesis by simp
next
  case Title
  then show ?thesis
  proof (cases rule: parseTITLE_InrE)
    case (1 r)
    with z show ?thesis by simp
  next
    case (2 r)
    show ?thesis unfolding 2(2) by (rule updOpen_byteStart_zero [OF 2(1) z]) simp
  qed
next
  case Performer
  then show ?thesis
  proof (cases rule: parsePERFORMER_InrE)
    case (1 r)
    with z show ?thesis by simp
  next
    case (2 r)
    show ?thesis unfolding 2(2) by (rule updOpen_byteStart_zero [OF 2(1) z]) simp
  qed
next
  case File
  from File(2) show ?thesis
  proof (cases rule: parseFILE_InrE)
    case (1 r1 r2 rest)
    with z show ?thesis by simp
  qed
next
  case Track
  from Track(2) show ?thesis
  proof (cases rule: parseTRACK_InrE)
    case (1 r1 r2 rest)
    with z show ?thesis by (simp add: new_cdtrack_def)
  qed
next
  case Index
  from Index(2) show ?thesis
  proof (cases rule: parseINDEX_InrE)
    case (1 r1 r2 r3 r4 rest)
    show ?thesis unfolding 1(4) by (rule updOpen_byteStart_zero [OF 1(1) z]) simp
  qed
next
  case Pregap
  then show ?thesis
  proof (cases rule: parsePREGAP_InrE)
    case (1 r1 r2 r3 rest)
    show ?thesis unfolding 1(3) by (rule updOpen_byteStart_zero [OF 1(1) z]) simp
  qed
qed

lemma parseLines_byteStart_zero:
  assumes "parseLines st l ls = Inr st'" and "\<forall>t\<in>set (tracks st). byteStart t = 0"
  shows "\<forall>t\<in>set (tracks st'). byteStart t = 0"
  using assms
  by (rule parseLines_invariant [where I = "\<lambda>s. \<forall>t\<in>set (tracks s). byteStart t = 0", rotated])
     (rule cueParser_byteStart_zero)

lemma layout_contiguous:
  "layout E dir ot os sz (tr # rest) = Inr (trs', sz')
     \<Longrightarrow> \<forall>t\<in>set rest. \<not> truthy (tfile t)
     \<Longrightarrow> ownerStep E dir ot os sz tr = Inr (tr1, ot1, os1, sz1)
     \<Longrightarrow> contiguous (byteStart tr) trs' os1"
proof (induction rest arbitrary: tr ot os sz trs' tr1 ot1 os1 sz1)
  case Nil
  from Nil.prems(1) obtain tr1' ot1' os1' sz1' tr2 rest2 r
    where o: "ownerStep E dir ot os sz tr = Inr (tr1', ot1', os1', sz1')"
      and s: "sizeStep ot1' os1' tr1' [] = Inr (tr2, rest2)"
      and l: "layout E dir ot1' os1' sz1' rest2 = Inr (r, sz')" and t: "trs' = tr2 # r"
    by (rule layout_ConsE)
  from o Nil.prems(3) have eq: "tr1' = tr1" "ot1' = ot1" "os1' = os1" by simp_all
  from sizeStep_last [OF s] have tr2: "tr2 = tr1'\<lparr>byteSize := os1' - byteStart tr1'\<rparr>"
    and r2: "rest2 = []" by simp_all
  from l r2 have "r = []" by simp
  with t tr2 eq ownerStep_Inr(1) [OF o] show ?case by simp
next
  case (Cons x xs)
  from Cons.prems(1) obtain tr1' ot1' os1' sz1' tr2 rest2 r
    where o: "ownerStep E dir ot os sz tr = Inr (tr1', ot1', os1', sz1')"
      and s: "sizeStep ot1' os1' tr1' (x # xs) = Inr (tr2, rest2)"
      and l: "layout E dir ot1' os1' sz1' rest2 = Inr (r, sz')" and t: "trs' = tr2 # r"
    by (rule layout_ConsE)
  from o Cons.prems(3) have eq: "tr1' = tr1" "ot1' = ot1" "os1' = os1" by simp_all
  from Cons.prems(2) have nx: "\<not> truthy (tfile x)" and nxs: "\<forall>t\<in>set xs. \<not> truthy (tfile t)"
    by simp_all
  from sizeStep_shared [OF s nx] obtain owner ss first others
    where tr2: "tr2 = tr1'\<lparr>byteSize := ss * toFrames first - byteStart tr1'\<rparr>"
      and rest2: "rest2 = x\<lparr>byteStart := ss * toFrames first\<rparr> # xs"
    by blast
  let ?x = "x\<lparr>byteStart := ss * toFrames first\<rparr>"
  from l rest2 obtain a b c d where o2: "ownerStep E dir ot1' os1' sz1' ?x = Inr (a, b, c, d)"
    by (auto split: sum.splits)
  have nx': "\<not> truthy (tfile ?x)" using nx by simp
  from ownerStep_Inr(8) [OF o2 nx'] have c: "c = os1'" by simp
  from Cons.IH [OF l [unfolded rest2] nxs o2] have "contiguous (ss * toFrames first) r os1'"
    using c by simp
  with t tr2 eq ownerStep_Inr(1) [OF o] show ?case by simp
qed

lemma contiguous_sum: "contiguous b ts e \<Longrightarrow> sum_list (map byteSize ts) = e - b"
  by (induction ts arbitrary: b) auto

lemma contiguous_lower:
  "contiguous b ts e \<Longrightarrow> \<forall>t\<in>set ts. 0 \<le> byteSize t \<Longrightarrow> j < length ts \<Longrightarrow> b \<le> byteStart (ts ! j)"
proof (induction ts arbitrary: b j)
  case Nil
  then show ?case by simp
next
  case (Cons t ts)
  show ?case
  proof (cases j)
    case 0
    with Cons.prems(1) show ?thesis by simp
  next
    case (Suc k)
    from Cons.prems have "b + byteSize t \<le> byteStart (ts ! k)"
      using Suc by (intro Cons.IH) auto
    moreover from Cons.prems(2) have "0 \<le> byteSize t" by simp
    ultimately show ?thesis using Suc by simp
  qed
qed

lemma contiguous_ordered:
  "contiguous b ts e \<Longrightarrow> \<forall>t\<in>set ts. 0 \<le> byteSize t \<Longrightarrow> i < j \<Longrightarrow> j < length ts
     \<Longrightarrow> byteStart (ts ! i) + byteSize (ts ! i) \<le> byteStart (ts ! j)"
proof (induction ts arbitrary: b i j)
  case Nil
  then show ?case by simp
next
  case (Cons t ts)
  from Cons.prems(3) obtain k where j: "j = Suc k" by (cases j) auto
  have c: "contiguous (b + byteSize t) ts e" and bt: "byteStart t = b"
    using Cons.prems(1) by simp_all
  have nn: "\<forall>t\<in>set ts. 0 \<le> byteSize t" using Cons.prems(2) by simp
  show ?case
  proof (cases i)
    case 0
    from contiguous_lower [OF c nn, of k] Cons.prems(4) j
    have "b + byteSize t \<le> byteStart (ts ! k)" by simp
    with 0 j bt show ?thesis by simp
  next
    case (Suc i')
    from Cons.IH [OF c nn, of i' k] Cons.prems(3,4) j Suc show ?thesis by simp
  qed
qed

lemma byteRange_disjoint:
  "byteStart a + byteSize a \<le> byteStart b \<Longrightarrow> byteRange a \<inter> byteRange b = {}"
  by (auto simp: byteRange_def)

text \<open>
  C2, as the code has it. After a successful load of a disc on which no track but the
  first declares a file, the first track declares one, the \<open>byteSize\<close>s add up to the
  size of that file, and the tracks are contiguous from 0 to that size: each starts
  where the one before ends. When no \<open>byteSize\<close> is negative, the byte ranges of any two
  tracks are disjoint. Nothing in the code keeps a \<open>byteSize\<close> from being negative.
\<close>

theorem loadCue_single_file_layout:
  assumes "loadCue E st input = Inr st'"
    and "\<forall>i. 0 < i \<and> i < length (tracks st') \<longrightarrow> tfile (tracks st' ! i) = None"
  shows "\<exists>f dir. tfile (hd (tracks st')) = Some f \<and> FILE_DIR st' = Some dir
           \<and> sum_list (map byteSize (tracks st')) = int (statSync_size E (path_join E dir f))
           \<and> contiguous 0 (tracks st') (int (statSync_size E (path_join E dir f)))
           \<and> ((\<forall>t\<in>set (tracks st'). 0 \<le> byteSize t) \<longrightarrow>
                (\<forall>i j. i < j \<and> j < length (tracks st') \<longrightarrow>
                   byteRange (tracks st' ! i) \<inter> byteRange (tracks st' ! j) = {}))"
proof -
  from assms(1) obtain ls and st1 :: cdinfos and dir start
    where e: "tracks st = []" and p: "parseLines st 0 ls = Inr st1"
      and ne: "tracks st1 \<noteq> []" and fd: "FILE_DIR st' = Some dir"
      and l: "layout E dir None 0 start (tracks st1) = Inr (tracks st', CD_SIZE st')"
    by (rule loadCue_InrE) blast
  from ne obtain tr rest where tr: "tracks st1 = tr # rest"
    by (cases "tracks st1") auto
  have z: "\<forall>t\<in>set (tracks st1). byteStart t = 0"
    using parseLines_byteStart_zero [OF p] e by simp
  then have b0: "byteStart tr = 0" using tr by simp
  have f: "map tfile (tracks st') = map tfile (tracks st1)"
    using layout_fields [OF l] by simp
  then have len: "length (tracks st') = length (tracks st1)"
    by (metis length_map)
  have sh: "\<forall>t\<in>set rest. \<not> truthy (tfile t)"
  proof
    fix t assume "t \<in> set rest"
    then obtain k where k: "k < length rest" "t = rest ! k"
      by (auto simp: in_set_conv_nth)
    then have "Suc k < length (tracks st')" using len tr by simp
    with assms(2) have "tfile (tracks st' ! Suc k) = None" by simp
    moreover have "tfile (tracks st' ! Suc k) = tfile (tracks st1 ! Suc k)"
      using f \<open>Suc k < length (tracks st')\<close> len by (metis nth_map)
    ultimately show "\<not> truthy (tfile t)"
      using k tr by (simp add: truthy_def)
  qed
  from l tr obtain tr1 ot1 os1 sz1
    where o: "ownerStep E dir None 0 start tr = Inr (tr1, ot1, os1, sz1)"
    by (auto split: sum.splits)
  have th: "truthy (tfile tr)"
    using ownerStep_Inr(8) [OF o] by auto
  from ownerStep_Inr(7) [OF o th] obtain fn
    where fn: "tfile tr = Some fn" "os1 = int (statSync_size E (path_join E dir fn))"
    by blast
  have c: "contiguous 0 (tracks st') os1"
    using layout_contiguous [OF l [unfolded tr] sh o] b0 by simp
  have hd: "tfile (hd (tracks st')) = Some fn"
  proof -
    have "tracks st' \<noteq> []" using len ne by auto
    then have "tfile (hd (tracks st')) = hd (map tfile (tracks st'))"
      by (simp add: hd_map)
    with f tr fn show ?thesis by simp
  qed
  have s: "sum_list (map byteSize (tracks st')) = os1"
    using contiguous_sum [OF c] by simp
  have d: "byteRange (tracks st' ! i) \<inter> byteRange (tracks st' ! j) = {}"
    if "\<forall>t\<in>set (tracks st'). 0 \<le> byteSize t" "i < j" "j < length (tracks st')" for i j
    using contiguous_ordered [OF c that] by (rule byteRange_disjoint)
  have d': "(\<forall>t\<in>set (tracks st'). 0 \<le> byteSize t) \<longrightarrow>
              (\<forall>i j. i < j \<and> j < length (tracks st') \<longrightarrow>
                 byteRange (tracks st' ! i) \<inter> byteRange (tracks st' ! j) = {})"
    using d by simp
  show ?thesis
  proof (rule exI [of _ fn], rule exI [of _ dir], intro conjI)
    show "tfile (hd (tracks st')) = Some fn" by (rule hd)
    show "FILE_DIR st' = Some dir" by (rule fd)
    show "sum_list (map byteSize (tracks st')) = int (statSync_size E (path_join E dir fn))"
      using s fn(2) by simp
    show "contiguous 0 (tracks st') (int (statSync_size E (path_join E dir fn)))"
      using c fn(2) by simp
    show "(\<forall>t\<in>set (tracks st'). 0 \<le> byteSize t) \<longrightarrow>
              (\<forall>i j. i < j \<and> j < length (tracks st') \<longrightarrow>
                 byteRange (tracks st' ! i) \<inter> byteRange (tracks st' ! j) = {})"
      by (rule d')
  qed
qed

theorem loadCue_single_file_layout_witness:
  "loadCue exampleEnv new_cdinfos ''a.cue'' = Inr discA
   \<and> map tfile (tracks discA) = [Some ''a.bin'', None]
   \<and> FILE_DIR discA = Some ''/cd''
   \<and> sum_list (map byteSize (tracks discA)) = int (statSync_size exampleEnv ''/cd/a.bin'')
   \<and> contiguous 0 (tracks discA) 1000000
   \<and> byteRange (tracks discA ! 0) \<inter> byteRange (tracks discA ! 1) = {}"
proof -
  have h: "\<forall>i. 0 < i \<and> i < length (tracks discA) \<longrightarrow> tfile (tracks discA ! i) = None"
    by (auto simp: discA_def less_Suc_eq)
  have t: "map tfile (tracks discA) = [Some ''a.bin'', None]" and fd: "FILE_DIR discA = Some ''/cd''"
    and hd: "tfile (hd (tracks discA)) = Some ''a.bin''"
    and nn: "\<forall>t\<in>set (tracks discA). 0 \<le> byteSize t" and len: "(1::nat) < length (tracks discA)"
    by (simp_all add: discA_def)
  have pj: "path_join exampleEnv ''/cd'' ''a.bin'' = ''/cd/a.bin''"
    and sz: "int (statSync_size exampleEnv ''/cd/a.bin'') = 1000000"
    by (simp_all add: exampleEnv_def)
  from loadCue_single_file_layout [OF load_sheetA h] obtain f dir
    where a: "tfile (hd (tracks discA)) = Some f" and b: "FILE_DIR discA = Some dir"
      and c: "sum_list (map byteSize (tracks discA))
               = int (statSync_size exampleEnv (path_join exampleEnv dir f))"
      and d: "contiguous 0 (tracks discA)
               (int (statSync_size exampleEnv (path_join exampleEnv dir f)))"
      and e: "(\<forall>t\<in>set (tracks discA). 0 \<le> byteSize t) \<longrightarrow>
                (\<forall>i j. i < j \<and> j < length (tracks discA) \<longrightarrow>
                   byteRange (tracks discA ! i) \<inter> byteRange (tracks discA ! j) = {})"
    by blast
  from a hd have f: "f = ''a.bin''" by simp
  from b fd have dir: "dir = ''/cd''" by simp
  from e nn len have r: "byteRange (tracks discA ! 0) \<inter> byteRange (tracks discA ! 1) = {}"
    by simp
  from c [unfolded f dir pj] d [unfolded f dir pj sz] load_sheetA t fd r show ?thesis
    by blast
qed

text \<open>
  The claim as stated fails on the sheet \<open>b.cue\<close>, which loads: its third track starts
  (at 00:01:00) before its second (at 00:02:00), the second gets a negative size, and the
  ranges of the first and the third track share the byte 200000.
\<close>

theorem loadCue_ranges_overlap_counterexample:
  "loadCue exampleEnv new_cdinfos ''b.cue'' = Inr discB
   \<and> map tfile (tracks discB) = [Some ''a.bin'', None, None]
   \<and> map byteStart (tracks discB) = [0, 352800, 176400]
   \<and> map byteSize (tracks discB) = [352800, - 176400, 823600]
   \<and> 200000 \<in> byteRange (tracks discB ! 0) \<inter> byteRange (tracks discB ! 2)"
proof -
  have "map tfile (tracks discB) = [Some ''a.bin'', None, None]"
    and "map byteStart (tracks discB) = [0, 352800, 176400]"
    and "map byteSize (tracks discB) = [352800, - 176400, 823600]"
    and "200000 \<in> byteRange (tracks discB ! 0) \<inter> byteRange (tracks discB ! 2)"
    by (simp_all add: discB_def byteRange_def)
  with load_sheetB show ?thesis by blast
qed

subsection \<open>Malformed sheets are rejected\<close>

lemma startsWithD: "startsWith u p \<Longrightarrow> \<exists>r. u = p @ r"
  by (metis append_take_drop_id startsWith_def)

lemma cueParser_FILE:
  assumes "startsWith (toUpperCase line) ''FILE''"
  shows "cueParser st line = parseFILE st line"
proof -
  from startsWithD [OF assms] obtain r where "toUpperCase line = ''FILE'' @ r" ..
  then show ?thesis
    by (simp add: cueParser_def startsWith_def)
qed

lemma cueParser_TRACK:
  assumes "startsWith (toUpperCase line) ''TRACK''"
  shows "cueParser st line = parseTRACK st (toUpperCase line)"
proof -
  from startsWithD [OF assms] obtain r where "toUpperCase line = ''TRACK'' @ r" ..
  then show ?thesis
    by (simp add: cueParser_def startsWith_def)
qed

lemma cueParser_INDEX:
  assumes "startsWith (toUpperCase line) ''INDEX''"
  shows "cueParser st line = parseINDEX st (toUpperCase line)"
proof -
  from startsWithD [OF assms] obtain r where "toUpperCase line = ''INDEX'' @ r" ..
  then show ?thesis
    by (simp add: cueParser_def startsWith_def)
qed

lemma keyword_nonblank:
  assumes "isTRACK x \<or> isFILE x \<or> isINDEX x"
  shows "length (trim x) \<noteq> 0"
proof
  assume "length (trim x) = 0"
  then have "lineUp x = []" by (simp add: lineUp_def toUpperCase_def)
  with assms show False
    by (simp add: isTRACK_def isFILE_def isINDEX_def startsWith_def)
qed

lemma parseLines_ConsD:
  assumes "parseLines st l (x # xs) = Inr s" and "length (trim x) \<noteq> 0"
  obtains s1 where "cueParser st (trim x) = Inr s1" "parseLines s1 (l + 1) xs = Inr s"
  using assms by (auto simp: Let_def split: sum.splits)

lemma parseLines_appendD:
  "parseLines st l (xs @ ys) = Inr s
     \<Longrightarrow> \<exists>s1. parseLines st l xs = Inr s1 \<and> parseLines s1 (l + length xs) ys = Inr s"
proof (induction xs arbitrary: st l)
  case Nil
  then show ?case by simp
next
  case (Cons x xs)
  show ?case
  proof (cases "length (trim x) = 0")
    case True
    with Cons.prems have "parseLines st (l + 1) (xs @ ys) = Inr s"
      by (simp add: Let_def)
    from Cons.IH [OF this] True show ?thesis
      by (simp add: Let_def)
  next
    case False
    with Cons.prems obtain s0 where c: "cueParser st (trim x) = Inr s0"
      and r: "parseLines s0 (l + 1) (xs @ ys) = Inr s"
      by (auto simp: Let_def split: sum.splits)
    from Cons.IH [OF r] False c show ?thesis
      by (simp add: Let_def)
  qed
qed

lemma updOpen_tracks:
  assumes "tracks st \<noteq> []"
  shows "tracks (updOpen f st) \<noteq> []" and "last (tracks (updOpen f st)) = f (last (tracks st))"
    and "butlast (tracks (updOpen f st)) = butlast (tracks st)"
  by (simp_all add: updOpen_def)

lemma updOpen_no:
  assumes "tracks st \<noteq> []" and "\<And>t. cdtrack.no (f t) = cdtrack.no t"
  shows "map cdtrack.no (tracks (updOpen f st)) = map cdtrack.no (tracks st)"
proof -
  have "map cdtrack.no (tracks (updOpen f st))
          = map cdtrack.no (butlast (tracks st)) @ [cdtrack.no (last (tracks st))]"
    by (simp add: updOpen_def assms(2))
  also have "\<dots> = map cdtrack.no (butlast (tracks st) @ [last (tracks st)])"
    by simp
  also have "\<dots> = map cdtrack.no (tracks st)"
    using assms(1) by simp
  finally show ?thesis .
qed

lemma validCheckOpen_no_index1:
  "tracks s \<noteq> [] \<Longrightarrow> \<not> indexExists (last (tracks s)) 1 \<Longrightarrow> validCheckOpen s \<noteq> Inr ()"
  by (simp add: validCheckOpen_def opentrack_def validCheck_def)

lemma step_noFile:
  assumes "cueParser s line = Inr s'" and i: "openfile s = None \<and> tracks s = []"
    and nf: "\<not> startsWith (toUpperCase line) ''FILE''"
  shows "openfile s' = None \<and> tracks s' = []"
  using assms(1)
proof (cases rule: cueParser_InrE)
  case Same
  with i show ?thesis by simp
next
  case Title
  then show ?thesis using i by (cases rule: parseTITLE_InrE) simp_all
next
  case Performer
  then show ?thesis using i by (cases rule: parsePERFORMER_InrE) simp_all
next
  case File
  with nf show ?thesis by simp
next
  case Track
  from Track(2) show ?thesis using i by (cases rule: parseTRACK_InrE) simp
next
  case Index
  from Index(2) show ?thesis using i by (cases rule: parseINDEX_InrE) simp
next
  case Pregap
  then show ?thesis using i by (cases rule: parsePREGAP_InrE) simp
qed

lemma step_trackNo:
  assumes "cueParser s line = Inr s'" and i: "n \<in> set (map cdtrack.no (tracks s))"
  shows "n \<in> set (map cdtrack.no (tracks s'))"
proof -
  have u: "n \<in> set (map cdtrack.no (tracks (updOpen f s)))"
    if "tracks s \<noteq> []" and "\<And>t. cdtrack.no (f t) = cdtrack.no t" for f
    using updOpen_no [OF that] i by simp
  from assms(1) show ?thesis
  proof (cases rule: cueParser_InrE)
    case Same
    with i show ?thesis by simp
  next
    case Title
    then show ?thesis
    proof (cases rule: parseTITLE_InrE)
      case (1 r) with i show ?thesis by simp
    next
      case (2 r) show ?thesis unfolding 2(2) by (rule u [OF 2(1)]) simp
    qed
  next
    case Performer
    then show ?thesis
    proof (cases rule: parsePERFORMER_InrE)
      case (1 r) with i show ?thesis by simp
    next
      case (2 r) show ?thesis unfolding 2(2) by (rule u [OF 2(1)]) simp
    qed
  next
    case File
    from File(2) show ?thesis using i by (cases rule: parseFILE_InrE) simp
  next
    case Track
    from Track(2) show ?thesis using i by (cases rule: parseTRACK_InrE) simp
  next
    case Index
    from Index(2) show ?thesis
    proof (cases rule: parseINDEX_InrE)
      case (1 r1 r2 r3 r4 rest) show ?thesis unfolding 1(4) by (rule u [OF 1(1)]) simp
    qed
  next
    case Pregap
    then show ?thesis
    proof (cases rule: parsePREGAP_InrE)
      case (1 r1 r2 r3 rest) show ?thesis unfolding 1(3) by (rule u [OF 1(1)]) simp
    qed
  qed
qed

lemma step_indexExists:
  assumes "cueParser s line = Inr s'"
    and i: "tracks s \<noteq> [] \<and> indexExists (last (tracks s)) n"
    and nt: "\<not> startsWith (toUpperCase line) ''TRACK''"
  shows "tracks s' \<noteq> [] \<and> indexExists (last (tracks s')) n"
proof -
  from i have t: "tracks s \<noteq> []" and e: "indexExists (last (tracks s)) n" by simp_all
  from assms(1) show ?thesis
  proof (cases rule: cueParser_InrE)
    case Same
    with i show ?thesis by simp
  next
    case Title
    then show ?thesis using t e
      by (cases rule: parseTITLE_InrE) (simp_all add: updOpen_tracks indexExists_def)
  next
    case Performer
    then show ?thesis using t e
      by (cases rule: parsePERFORMER_InrE) (simp_all add: updOpen_tracks indexExists_def)
  next
    case File
    from File(2) show ?thesis using i by (cases rule: parseFILE_InrE) simp
  next
    case Track
    with nt show ?thesis by simp
  next
    case Index
    from Index(2) show ?thesis using t e
      by (cases rule: parseINDEX_InrE) (simp add: updOpen_tracks indexExists_def)
  next
    case Pregap
    then show ?thesis using t e
      by (cases rule: parsePREGAP_InrE) (simp add: updOpen_tracks indexExists_def)
  qed
qed

lemma step_noIndex1:
  assumes "cueParser s line = Inr s'"
    and i: "tracks s \<noteq> [] \<and> \<not> indexExists (last (tracks s)) 1"
    and ni: "\<And>r1 r2 r3 r4 rest. startsWith (toUpperCase line) ''INDEX''
               \<Longrightarrow> matchHere re_INDEX (toUpperCase line) = Some ([r1, r2, r3, r4], rest)
               \<Longrightarrow> parseInt r1 \<noteq> 1"
  shows "tracks s' \<noteq> [] \<and> \<not> indexExists (last (tracks s')) 1"
proof -
  from i have t: "tracks s \<noteq> []" and e: "\<not> indexExists (last (tracks s)) 1" by simp_all
  have v: "validCheckOpen s \<noteq> Inr ()"
    using t e by (rule validCheckOpen_no_index1)
  from assms(1) show ?thesis
  proof (cases rule: cueParser_InrE)
    case Same
    with i show ?thesis by simp
  next
    case Title
    then show ?thesis using t e
      by (cases rule: parseTITLE_InrE) (simp_all add: updOpen_tracks indexExists_def)
  next
    case Performer
    then show ?thesis using t e
      by (cases rule: parsePERFORMER_InrE) (simp_all add: updOpen_tracks indexExists_def)
  next
    case File
    from File(2) show ?thesis using v by (cases rule: parseFILE_InrE) simp
  next
    case Track
    from Track(2) show ?thesis using v by (cases rule: parseTRACK_InrE) simp
  next
    case Index
    from Index(2) show ?thesis
    proof (cases rule: parseINDEX_InrE)
      case (1 r1 r2 r3 r4 rest)
      from ni [OF Index(1) 1(2)] have "parseInt r1 \<noteq> 1" .
      with 1 t e show ?thesis
        by (simp add: updOpen_tracks indexExists_def new_cuetime_def)
    qed
  next
    case Pregap
    then show ?thesis using t e
      by (cases rule: parsePREGAP_InrE) (simp add: updOpen_tracks indexExists_def)
  qed
qed

lemma isTRACK_parse:
  assumes "isTRACK x" and "parseLines st l (x # xs) = Inr s"
  obtains s1 where "parseTRACK st (lineUp x) = Inr s1" "parseLines s1 (l + 1) xs = Inr s"
proof -
  from assms(1) have nb: "length (trim x) \<noteq> 0" by (intro keyword_nonblank) simp
  from assms(2) nb obtain s1 where c: "cueParser st (trim x) = Inr s1"
    and r: "parseLines s1 (l + 1) xs = Inr s"
    by (rule parseLines_ConsD)
  from assms(1) have "cueParser st (trim x) = parseTRACK st (lineUp x)"
    unfolding isTRACK_def lineUp_def by (rule cueParser_TRACK)
  with c r that show thesis by simp
qed

lemma isFILE_parse:
  assumes "isFILE x" and "parseLines st l (x # xs) = Inr s"
  obtains s1 where "parseFILE st (trim x) = Inr s1" "parseLines s1 (l + 1) xs = Inr s"
proof -
  from assms(1) have nb: "length (trim x) \<noteq> 0" by (intro keyword_nonblank) simp
  from assms(2) nb obtain s1 where c: "cueParser st (trim x) = Inr s1"
    and r: "parseLines s1 (l + 1) xs = Inr s"
    by (rule parseLines_ConsD)
  from assms(1) have "cueParser st (trim x) = parseFILE st (trim x)"
    unfolding isFILE_def lineUp_def by (rule cueParser_FILE)
  with c r that show thesis by simp
qed

lemma isINDEX_parse:
  assumes "isINDEX x" and "parseLines st l (x # xs) = Inr s"
  obtains s1 where "parseINDEX st (lineUp x) = Inr s1" "parseLines s1 (l + 1) xs = Inr s"
proof -
  from assms(1) have nb: "length (trim x) \<noteq> 0" by (intro keyword_nonblank) simp
  from assms(2) nb obtain s1 where c: "cueParser st (trim x) = Inr s1"
    and r: "parseLines s1 (l + 1) xs = Inr s"
    by (rule parseLines_ConsD)
  from assms(1) have "cueParser st (trim x) = parseINDEX st (lineUp x)"
    unfolding isINDEX_def lineUp_def by (rule cueParser_INDEX)
  with c r that show thesis by simp
qed

lemma trackNo_SomeD: "trackNo x = Some n \<Longrightarrow> isTRACK x"
  and trackType_SomeD: "trackType x = Some ty \<Longrightarrow> isTRACK x"
  and indexNo_SomeD: "indexNo x = Some n \<Longrightarrow> isINDEX x"
  and fileType_SomeD: "fileType x = Some ty \<Longrightarrow> isFILE x"
  by (auto simp: trackNo_def trackType_def indexNo_def fileType_def split: if_splits)

lemma trackBeforeFile_rejected:
  assumes "trackBeforeFile ls" and "parseLines new_cdinfos l ls = Inr s"
  shows False
proof -
  from assms(1) obtain pre x post where ls: "ls = pre @ x # post" and x: "isTRACK x"
    and nf: "\<forall>y\<in>set pre. \<not> isFILE y"
    unfolding trackBeforeFile_def by blast
  from parseLines_appendD [OF assms(2) [unfolded ls]] obtain s1
    where p: "parseLines new_cdinfos l pre = Inr s1"
      and q: "parseLines s1 (l + length pre) (x # post) = Inr s"
    by blast
  have inv: "openfile s1 = None \<and> tracks s1 = []"
  proof (rule parseLines_invariant [where I = "\<lambda>s. openfile s = None \<and> tracks s = []", OF _ p])
    show "openfile new_cdinfos = None \<and> tracks new_cdinfos = []"
      by (simp add: new_cdinfos_def)
  next
    fix s y s'
    assume "y \<in> set pre" and i: "openfile s = None \<and> tracks s = []"
      and c: "cueParser s (trim y) = Inr s'"
    with nf have "\<not> startsWith (toUpperCase (trim y)) ''FILE''"
      by (simp add: isFILE_def lineUp_def)
    with c i show "openfile s' = None \<and> tracks s' = []"
      by (rule step_noFile)
  qed
  from x q obtain s2 where "parseTRACK s1 (lineUp x) = Inr s2"
    by (rule isTRACK_parse)
  then show False
    using inv by (cases rule: parseTRACK_InrE) simp
qed

lemma duplicateTrack_rejected:
  assumes "duplicateTrack ls" and "parseLines st l ls = Inr s"
  shows False
proof -
  from assms(1) obtain a x b y c n where ls: "ls = a @ x # b @ y # c"
    and x: "trackNo x = Some n" and y: "trackNo y = Some n"
    unfolding duplicateTrack_def by blast
  from parseLines_appendD [OF assms(2) [unfolded ls]] obtain s1
    where q: "parseLines s1 (l + length a) (x # b @ y # c) = Inr s"
    by blast
  from trackNo_SomeD [OF x] q obtain s2 where px: "parseTRACK s1 (lineUp x) = Inr s2"
    and r: "parseLines s2 (l + length a + 1) (b @ y # c) = Inr s"
    by (rule isTRACK_parse)
  from parseLines_appendD [OF r] obtain s3
    where pb: "parseLines s2 (l + length a + 1) b = Inr s3"
      and qy: "parseLines s3 (l + length a + 1 + length b) (y # c) = Inr s"
    by blast
  from trackNo_SomeD [OF y] qy obtain s4 where py: "parseTRACK s3 (lineUp y) = Inr s4"
    by (rule isTRACK_parse)
  from px have "n \<in> set (map cdtrack.no (tracks s2))"
  proof (cases rule: parseTRACK_InrE)
    case (1 r1 r2 rest)
    with x trackNo_SomeD [OF x] show ?thesis
      by (simp add: trackNo_def)
  qed
  have "n \<in> set (map cdtrack.no (tracks s3))"
  proof (rule parseLines_invariant [where I = "\<lambda>s. n \<in> set (map cdtrack.no (tracks s))", OF _ pb])
    show "n \<in> set (map cdtrack.no (tracks s2))" by fact
  next
    fix s z s'
    assume "n \<in> set (map cdtrack.no (tracks s))" and "cueParser s (trim z) = Inr s'"
    then show "n \<in> set (map cdtrack.no (tracks s'))"
      by (rule step_trackNo [rotated])
  qed
  from py show False
  proof (cases rule: parseTRACK_InrE)
    case (1 r1 r2 rest)
    from 1(1) y trackNo_SomeD [OF y] have "parseInt r1 = n"
      by (simp add: trackNo_def)
    with 1(4) \<open>n \<in> set (map cdtrack.no (tracks s3))\<close> show False
      by (auto simp: list_ex_iff)
  qed
qed

lemma duplicateIndex_rejected:
  assumes "duplicateIndex ls" and "parseLines st l ls = Inr s"
  shows False
proof -
  from assms(1) obtain a x b y c n where ls: "ls = a @ x # b @ y # c"
    and x: "indexNo x = Some n" and y: "indexNo y = Some n"
    and nt: "\<forall>z\<in>set b. \<not> isTRACK z"
    unfolding duplicateIndex_def by blast
  from parseLines_appendD [OF assms(2) [unfolded ls]] obtain s1
    where q: "parseLines s1 (l + length a) (x # b @ y # c) = Inr s"
    by blast
  from indexNo_SomeD [OF x] q obtain s2 where px: "parseINDEX s1 (lineUp x) = Inr s2"
    and r: "parseLines s2 (l + length a + 1) (b @ y # c) = Inr s"
    by (rule isINDEX_parse)
  from parseLines_appendD [OF r] obtain s3
    where pb: "parseLines s2 (l + length a + 1) b = Inr s3"
      and qy: "parseLines s3 (l + length a + 1 + length b) (y # c) = Inr s"
    by blast
  from indexNo_SomeD [OF y] qy obtain s4 where py: "parseINDEX s3 (lineUp y) = Inr s4"
    by (rule isINDEX_parse)
  from px have i2: "tracks s2 \<noteq> [] \<and> indexExists (last (tracks s2)) n"
  proof (cases rule: parseINDEX_InrE)
    case (1 r1 r2 r3 r4 rest)
    from 1(2) x indexNo_SomeD [OF x] have "parseInt r1 = n"
      by (simp add: indexNo_def)
    with 1 show ?thesis
      by (simp add: updOpen_tracks indexExists_def new_cuetime_def)
  qed
  have i3: "tracks s3 \<noteq> [] \<and> indexExists (last (tracks s3)) n"
  proof (rule parseLines_invariant
      [where I = "\<lambda>s. tracks s \<noteq> [] \<and> indexExists (last (tracks s)) n", OF _ pb i2])
    fix s z s'
    assume "z \<in> set b" and i: "tracks s \<noteq> [] \<and> indexExists (last (tracks s)) n"
      and c: "cueParser s (trim z) = Inr s'"
    with nt have "\<not> startsWith (toUpperCase (trim z)) ''TRACK''"
      by (simp add: isTRACK_def lineUp_def)
    with c i show "tracks s' \<noteq> [] \<and> indexExists (last (tracks s')) n"
      by (rule step_indexExists)
  qed
  from py show False
  proof (cases rule: parseINDEX_InrE)
    case (1 r1 r2 r3 r4 rest)
    from 1(2) y indexNo_SomeD [OF y] have "parseInt r1 = n"
      by (simp add: indexNo_def)
    with 1(3) i3 show False by simp
  qed
qed

lemma trackWithoutIndex1_rejected:
  assumes "trackWithoutIndex1 ls" and "parseLines st l ls = Inr s"
  shows "validCheckOpen s \<noteq> Inr ()"
proof -
  from assms(1) obtain a x b c where ls: "ls = a @ x # b @ c" and x: "isTRACK x"
    and ni: "\<forall>z\<in>set b. indexNo z \<noteq> Some 1"
    and c: "c = [] \<or> (\<exists>y c'. c = y # c' \<and> (isTRACK y \<or> isFILE y))"
    unfolding trackWithoutIndex1_def by blast
  from parseLines_appendD [OF assms(2) [unfolded ls]] obtain s1
    where q: "parseLines s1 (l + length a) (x # b @ c) = Inr s"
    by blast
  from x q obtain s2 where px: "parseTRACK s1 (lineUp x) = Inr s2"
    and r: "parseLines s2 (l + length a + 1) (b @ c) = Inr s"
    by (rule isTRACK_parse)
  from parseLines_appendD [OF r] obtain s3
    where pb: "parseLines s2 (l + length a + 1) b = Inr s3"
      and qc: "parseLines s3 (l + length a + 1 + length b) c = Inr s"
    by blast
  from px have i2: "tracks s2 \<noteq> [] \<and> \<not> indexExists (last (tracks s2)) 1"
    by (cases rule: parseTRACK_InrE) (simp add: indexExists_def new_cdtrack_def)
  have i3: "tracks s3 \<noteq> [] \<and> \<not> indexExists (last (tracks s3)) 1"
  proof (rule parseLines_invariant
      [where I = "\<lambda>s. tracks s \<noteq> [] \<and> \<not> indexExists (last (tracks s)) 1", OF _ pb i2])
    fix s z s'
    assume z: "z \<in> set b" and i: "tracks s \<noteq> [] \<and> \<not> indexExists (last (tracks s)) 1"
      and cp: "cueParser s (trim z) = Inr s'"
    show "tracks s' \<noteq> [] \<and> \<not> indexExists (last (tracks s')) 1"
      using cp i
    proof (rule step_noIndex1)
      fix r1 r2 r3 r4 rest
      assume "startsWith (toUpperCase (trim z)) ''INDEX''"
        and "matchHere re_INDEX (toUpperCase (trim z)) = Some ([r1, r2, r3, r4], rest)"
      then have "indexNo z = Some (parseInt r1)"
        by (simp add: indexNo_def isINDEX_def lineUp_def)
      with ni z show "parseInt r1 \<noteq> 1" by auto
    qed
  qed
  then have v: "validCheckOpen s3 \<noteq> Inr ()"
    by (simp add: validCheckOpen_no_index1)
  from c show ?thesis
  proof
    assume "c = []"
    with qc v show ?thesis by simp
  next
    assume "\<exists>y c'. c = y # c' \<and> (isTRACK y \<or> isFILE y)"
    then obtain y c' where cy: "c = y # c'" and k: "isTRACK y \<or> isFILE y" by blast
    from k have False
    proof
      assume "isTRACK y"
      from this qc [unfolded cy] obtain s4 where "parseTRACK s3 (lineUp y) = Inr s4"
        by (rule isTRACK_parse)
      then show False using v by (cases rule: parseTRACK_InrE) simp
    next
      assume "isFILE y"
      from this qc [unfolded cy] obtain s4 where "parseFILE s3 (trim y) = Inr s4"
        by (rule isFILE_parse)
      then show False using v by (cases rule: parseFILE_InrE) simp
    qed
    then show ?thesis ..
  qed
qed

lemma badFileType_rejected:
  assumes "badFileType ls" and "parseLines st l ls = Inr s"
  shows False
proof -
  from assms(1) obtain x ty where x: "x \<in> set ls" and f: "fileType x = Some ty"
    and b: "ty \<notin> set SUPPORTED_TRACK_FILES"
    unfolding badFileType_def by blast
  from x obtain a c where ls: "ls = a @ x # c"
    by (auto dest: split_list)
  from parseLines_appendD [OF assms(2) [unfolded ls]] obtain s1
    where q: "parseLines s1 (l + length a) (x # c) = Inr s"
    by blast
  from fileType_SomeD [OF f] q obtain s2 where "parseFILE s1 (trim x) = Inr s2"
    by (rule isFILE_parse)
  then show False
  proof (cases rule: parseFILE_InrE)
    case (1 r1 r2 rest)
    from 1(1) f fileType_SomeD [OF f] have "r2 = ty"
      by (simp add: fileType_def)
    with 1(2) b show False by simp
  qed
qed

lemma badTrackType_rejected:
  assumes "badTrackType ls" and "parseLines st l ls = Inr s"
  shows False
proof -
  from assms(1) obtain x ty where x: "x \<in> set ls" and f: "trackType x = Some ty"
    and b: "sectorsByType ty = None"
    unfolding badTrackType_def by blast
  from x obtain a c where ls: "ls = a @ x # c"
    by (auto dest: split_list)
  from parseLines_appendD [OF assms(2) [unfolded ls]] obtain s1
    where q: "parseLines s1 (l + length a) (x # c) = Inr s"
    by blast
  from trackType_SomeD [OF f] q obtain s2 where "parseTRACK s1 (lineUp x) = Inr s2"
    by (rule isTRACK_parse)
  then show False
  proof (cases rule: parseTRACK_InrE)
    case (1 r1 r2 rest)
    from 1(1) f trackType_SomeD [OF f] have "r2 = ty"
      by (simp add: trackType_def)
    with 1(5) b show False by simp
  qed
qed

lemma loadCue_fails:
  assumes "getFileLines E (path_normalize E input) = Some ls"
    and "\<And>s. parseLines st 0 ls = Inr s \<Longrightarrow> validCheckOpen s \<noteq> Inr ()"
  shows "\<exists>e s. loadCue E st input = Inl (e, s)"
proof (cases "loadCue E st input")
  case (Inl r)
  then show ?thesis by (cases r) simp
next
  case (Inr st')
  then obtain ls' and st1 :: cdinfos
    where "getFileLines E (path_normalize E input) = Some ls'"
      and "parseLines st 0 ls' = Inr st1" and "validCheckOpen st1 = Inr ()"
    by (rule loadCue_InrE) blast
  with assms show ?thesis by simp
qed

text \<open>
  C4. Loading into a fresh object fails with an error whenever the sheet has one of
  these shapes: a TRACK line with no FILE line before it; two TRACK lines declaring the
  same number; two INDEX lines declaring the same number with no TRACK line between
  them; a TRACK line followed by no INDEX line numbered 1 before the next TRACK or FILE
  line or the end of the sheet; a FILE line declaring a type other than BINARY and WAVE;
  a TRACK line declaring a type outside the sector-size table.
\<close>

theorem malformed_sheet_rejected:
  assumes "getFileLines E (path_normalize E input) = Some ls"
    and "trackBeforeFile ls \<or> duplicateTrack ls \<or> duplicateIndex ls \<or> trackWithoutIndex1 ls
         \<or> badFileType ls \<or> badTrackType ls"
  shows "\<exists>e s. loadCue E new_cdinfos input = Inl (e, s)"
  using assms(1)
proof (rule loadCue_fails)
  fix s
  assume p: "parseLines new_cdinfos 0 ls = Inr s"
  from assms(2) show "validCheckOpen s \<noteq> Inr ()"
    using trackBeforeFile_rejected [OF _ p] duplicateTrack_rejected [OF _ p]
      duplicateIndex_rejected [OF _ p] trackWithoutIndex1_rejected [OF _ p]
      badFileType_rejected [OF _ p] badTrackType_rejected [OF _ p]
    by blast
qed

lemmas line_defs = isTRACK_def isFILE_def isINDEX_def lineUp_def trackNo_def trackType_def
  indexNo_def fileType_def fileLine_def

lemma bad1_shape: "trackBeforeFile bad1"
  unfolding trackBeforeFile_def bad1_def
  by (rule exI [of _ "[]"], rule exI [of _ "''TRACK 01 AUDIO''"],
      rule exI [of _ "[''  INDEX 01 00:00:00'']"]) (simp add: line_defs str_defs isSpace_def)

lemma bad2_shape: "duplicateTrack bad2"
  unfolding duplicateTrack_def bad2_def
  by (rule exI [of _ "[fileLine]"], rule exI [of _ "''TRACK 01 AUDIO''"],
      rule exI [of _ "[''  INDEX 01 00:00:00'']"], rule exI [of _ "''TRACK 01 AUDIO''"],
      rule exI [of _ "[''  INDEX 01 00:02:00'']"], rule exI [of _ 1])
     (simp add: line_defs str_defs re_defs)

lemma bad3_shape: "duplicateIndex bad3"
  unfolding duplicateIndex_def bad3_def
  by (rule exI [of _ "[fileLine, ''TRACK 01 AUDIO'']"], rule exI [of _ "''  INDEX 01 00:00:00''"],
      rule exI [of _ "[]"], rule exI [of _ "''  INDEX 01 00:02:00''"],
      rule exI [of _ "[]"], rule exI [of _ 1])
     (simp add: line_defs str_defs re_defs)

lemma bad4_shape: "trackWithoutIndex1 bad4"
  unfolding trackWithoutIndex1_def bad4_def
  by (rule exI [of _ "[fileLine]"], rule exI [of _ "''TRACK 01 AUDIO''"],
      rule exI [of _ "[''  INDEX 00 00:00:00'']"], rule exI [of _ "[]"])
     (simp add: line_defs str_defs re_defs)

lemma bad5_shape: "badFileType bad5"
  unfolding badFileType_def bad5_def
  by (rule bexI [of _ "''FILE '' @ QUOTE @ ''a.mp3'' @ QUOTE @ '' MP3''"])
     (simp_all add: line_defs str_defs re_defs SUPPORTED_TRACK_FILES_def)

lemma bad6_shape: "badTrackType bad6"
  unfolding badTrackType_def bad6_def
  by (rule bexI [of _ "''TRACK 01 MODE3/2352''"])
     (simp_all add: line_defs str_defs re_defs sectorsByType_def)

theorem malformed_sheet_rejected_witness:
  "(trackBeforeFile bad1 \<and> (\<exists>e s. loadCue (envWith bad1) new_cdinfos ''x.cue'' = Inl (e, s)))
   \<and> (duplicateTrack bad2 \<and> (\<exists>e s. loadCue (envWith bad2) new_cdinfos ''x.cue'' = Inl (e, s)))
   \<and> (duplicateIndex bad3 \<and> (\<exists>e s. loadCue (envWith bad3) new_cdinfos ''x.cue'' = Inl (e, s)))
   \<and> (trackWithoutIndex1 bad4 \<and> (\<exists>e s. loadCue (envWith bad4) new_cdinfos ''x.cue'' = Inl (e, s)))
   \<and> (badFileType bad5 \<and> (\<exists>e s. loadCue (envWith bad5) new_cdinfos ''x.cue'' = Inl (e, s)))
   \<and> (badTrackType bad6 \<and> (\<exists>e s. loadCue (envWith bad6) new_cdinfos ''x.cue'' = Inl (e, s)))"
proof -
  have g: "getFileLines (envWith ls) (path_normalize (envWith ls) ''x.cue'') = Some ls" for ls
    by (simp add: envWith_def)
  show ?thesis
    using malformed_sheet_rejected [OF g [of bad1]] malformed_sheet_rejected [OF g [of bad2]]
      malformed_sheet_rejected [OF g [of bad3]] malformed_sheet_rejected [OF g [of bad4]]
      malformed_sheet_rejected [OF g [of bad5]] malformed_sheet_rejected [OF g [of bad6]]
      bad1_shape bad2_shape bad3_shape bad4_shape bad5_shape bad6_shape
    by blast
qed

end
